theory Spec2Isabelle
  imports Complex_Main "HOL-Library.Char_ord" "HOL-Library.List_Lexorder"
begin

section \<open>Data model of app.py\<close>

text \<open>
  A job is the dict built in \<open>create_job\<close> and \<open>load_jobs_at_start\<close>. The status strings
  of the source ('scheduled', 'done', 'cancelled', 'dead') are the constructors below;
  \<open>Running\<close> stands for the string 'running', which the source never writes but which a
  row of the jobs table may hold. Timestamps are Python floats, modelled as reals:
  \<open>time.time()\<close> is the parameter \<open>now\<close> of every operation.
\<close>

datatype status = Scheduled | Running | Done | Cancelled | Dead

record job =
  job_id :: string
  run_at :: real
  payload :: string
  status :: status
  retries :: int
  recurring :: bool
  interval :: real

text \<open>An entry of the global \<open>heap\<close>: the tuple \<open>(run_at, job_id)\<close>.\<close>

type_synonym entry = "real \<times> string"

text \<open>
  The globals of the module. \<open>jobs\<close> is the dict from job id to job, \<open>heap\<close> the list
  that \<open>heapq\<close> manages, \<open>db\<close> the sequence of rows that \<open>persist_job\<close> has written to
  the jobs table (oldest first), and \<open>threads\<close> the ids of the jobs for which
  \<open>scheduler_loop\<close> has started an \<open>execute_job\<close> thread that has not yet run.
  The thread mutates the very dict that \<open>jobs\<close> holds, so it is identified by its key.
\<close>

record state =
  jobs :: "string \<rightharpoonup> job"
  heap :: "entry list"
  db :: "job list"
  threads :: "string list"

definition init :: state where
  "init = \<lparr>jobs = Map.empty, heap = [], db = [], threads = []\<rparr>"

section \<open>The heap\<close>

text \<open>
  \<open>heapq\<close> keeps the least tuple at index 0, and Python compares the tuples
  \<open>(run_at, job_id)\<close> lexicographically: first the floats, then the id strings by
  code point. \<open>heap_top\<close> is \<open>heap[0]\<close> (None on the empty list), \<open>heappush\<close> adds an
  entry, \<open>heappop\<close> removes the least one.
\<close>

fun entry_le :: "entry \<Rightarrow> entry \<Rightarrow> bool" where
  "entry_le (t1, i1) (t2, i2) = (t1 < t2 \<or> (t1 = t2 \<and> i1 \<le> i2))"

fun heap_top :: "entry list \<Rightarrow> entry option" where
  "heap_top [] = None"
| "heap_top (e # es) =
     (case heap_top es of
        None \<Rightarrow> Some e
      | Some m \<Rightarrow> Some (if entry_le e m then e else m))"

definition heappush :: "entry list \<Rightarrow> entry \<Rightarrow> entry list" where
  "heappush h e = h @ [e]"

definition heappop :: "entry list \<Rightarrow> (entry \<times> entry list) option" where
  "heappop h = (case heap_top h of None \<Rightarrow> None | Some m \<Rightarrow> Some (m, remove1 m h))"

section \<open>Persistence\<close>

text \<open>\<open>persist_job\<close>: one committed \<open>REPLACE INTO jobs\<close> of the job as it is now.\<close>

definition persist_job :: "job \<Rightarrow> state \<Rightarrow> state" where
  "persist_job j st = st\<lparr>db := db st @ [j]\<rparr>"

text \<open>
  The jobs table after a sequence of writes: \<open>id\<close> is the primary key, so \<open>REPLACE\<close>
  deletes the row with the same id, if any, and inserts the new one.
\<close>

definition replace_row :: "job list \<Rightarrow> job \<Rightarrow> job list" where
  "replace_row rows j = filter (\<lambda>r. job_id r \<noteq> job_id j) rows @ [j]"

definition db_rows :: "job list \<Rightarrow> job list" where
  "db_rows writes = foldl replace_row [] writes"

text \<open>
  \<open>load_jobs_at_start\<close>: the rows with \<open>status != "done"\<close> are put into \<open>jobs\<close> and
  pushed on the heap, one after the other.
\<close>

definition load_row :: "state \<Rightarrow> job \<Rightarrow> state" where
  "load_row st j =
     st\<lparr>jobs := (jobs st)(job_id j \<mapsto> j), heap := heappush (heap st) (run_at j, job_id j)\<rparr>"

definition load_jobs_at_start :: "state \<Rightarrow> state" where
  "load_jobs_at_start st =
     foldl load_row st (filter (\<lambda>r. status r \<noteq> Done) (db_rows (db st)))"

text \<open>
  The boot sequence of the module: a fresh process has empty \<open>jobs\<close> and \<open>heap\<close> and no
  thread, the table is what earlier runs wrote, and \<open>load_jobs_at_start\<close> runs before the
  scheduler thread starts.
\<close>

definition boot :: "job list \<Rightarrow> state" where
  "boot writes = load_jobs_at_start \<lparr>jobs = Map.empty, heap = [], db = writes, threads = []\<rparr>"

section \<open>The scheduler loop and the executor\<close>

text \<open>
  One iteration of the \<open>while True\<close> of \<open>scheduler_loop\<close> at time \<open>now\<close>: when the heap
  is not empty and \<open>heap[0][0] <= now\<close>, the least entry is popped and its job looked up
  in \<open>jobs\<close>. The result is the id of the job for which an \<open>execute_job\<close> thread was
  started, if any, and the new state. Nothing in the iteration reads or writes a job's
  status.
\<close>

definition scheduler_iter :: "real \<Rightarrow> state \<Rightarrow> string option \<times> state" where
  "scheduler_iter now st =
     (case heap_top (heap st) of
        None \<Rightarrow> (None, st)
      | Some (t, _) \<Rightarrow>
          if t \<le> now then
            (case heappop (heap st) of
               None \<Rightarrow> (None, st)
             | Some ((_, i), h) \<Rightarrow>
                 (let st' = st\<lparr>heap := h\<rparr> in
                  case jobs st' i of
                    None \<Rightarrow> (None, st')
                  | Some j \<Rightarrow> (Some i, st'\<lparr>threads := threads st' @ [i]\<rparr>)))
          else (None, st))"

text \<open>
  \<open>execute_job\<close> on the job stored under key \<open>k\<close>. \<open>ok\<close> tells whether the work of the
  \<open>try\<close> block (the simulated \<open>time.sleep(0.5)\<close>) finished without raising; \<open>now\<close> is
  the \<open>time.time()\<close> read afterwards. The writes to the database are taken to succeed.
\<close>

definition execute_job :: "real \<Rightarrow> bool \<Rightarrow> string \<Rightarrow> state \<Rightarrow> state" where
  "execute_job now ok k st =
     (case jobs st k of
        None \<Rightarrow> st
      | Some j \<Rightarrow>
          if ok then
            (let j1 = j\<lparr>status := Done\<rparr>;
                 st1 = persist_job j1 (st\<lparr>jobs := (jobs st)(k \<mapsto> j1)\<rparr>)
             in if recurring j1 then
                  (let j2 = j1\<lparr>run_at := now + interval j1, status := Scheduled\<rparr>
                   in persist_job j2
                        (st1\<lparr>jobs := (jobs st1)(k \<mapsto> j2),
                             heap := heappush (heap st1) (run_at j2, job_id j2)\<rparr>))
                else st1)
          else
            (let j1 = j\<lparr>retries := retries j + 1\<rparr>
             in if retries j1 \<le> 3 then
                  (let j2 = j1\<lparr>status := Scheduled, run_at := now + 2\<rparr>
                   in persist_job j2
                        (st\<lparr>jobs := (jobs st)(k \<mapsto> j2),
                            heap := heappush (heap st) (run_at j2, job_id j2)\<rparr>))
                else
                  (let j2 = j1\<lparr>status := Dead\<rparr>
                   in persist_job j2 (st\<lparr>jobs := (jobs st)(k \<mapsto> j2)\<rparr>))))"

section \<open>The HTTP endpoints\<close>

text \<open>
  The JSON body of \<open>POST /jobs\<close>: every key is optional, \<open>data.get\<close> supplies the
  default. The bodies modelled are those whose delay and interval are numbers and whose
  payload is text: on a null or non-numeric delay or interval \<open>float\<close> raises before
  anything is stored, and on a payload that the database cannot bind \<open>persist_job\<close>
  raises after the job is in \<open>jobs\<close> and on the heap; both end in a response 500 and
  are not part of this model.
\<close>

record create_req =
  req_delay :: "real option"
  req_payload :: "string option"
  req_recurring :: "bool option"
  req_interval :: "real option"

datatype response = Created string real | Ok | NotFound

text \<open>
  \<open>create_job\<close> at time \<open>now\<close>; \<open>new_id\<close> is the value of \<open>str(uuid.uuid4())\<close>.
\<close>

definition create_job :: "real \<Rightarrow> create_req \<Rightarrow> string \<Rightarrow> state \<Rightarrow> response \<times> state" where
  "create_job now data new_id st =
     (let delay = (case req_delay data of None \<Rightarrow> 0 | Some d \<Rightarrow> d);
          t = now + delay;
          j = \<lparr>job_id = new_id, run_at = t,
               payload = (case req_payload data of None \<Rightarrow> [] | Some p \<Rightarrow> p),
               status = Scheduled, retries = 0,
               recurring = (case req_recurring data of None \<Rightarrow> False | Some b \<Rightarrow> b),
               interval = (case req_interval data of None \<Rightarrow> 0 | Some x \<Rightarrow> x)\<rparr>
      in (Created new_id t,
          persist_job j (st\<lparr>jobs := (jobs st)(new_id \<mapsto> j),
                            heap := heappush (heap st) (t, new_id)\<rparr>)))"

text \<open>\<open>delete_job\<close>, the handler of \<open>DELETE /jobs/<job_id>\<close>.\<close>

definition delete_job :: "string \<Rightarrow> state \<Rightarrow> response \<times> state" where
  "delete_job k st =
     (case jobs st k of
        None \<Rightarrow> (NotFound, st)
      | Some j \<Rightarrow>
          (let j1 = j\<lparr>status := Cancelled\<rparr>
           in (Ok, persist_job j1 (st\<lparr>jobs := (jobs st)(k \<mapsto> j1)\<rparr>))))"

text \<open>\<open>get_job\<close>, the handler of \<open>GET /jobs/<job_id>\<close>.\<close>

definition get_job :: "string \<Rightarrow> state \<Rightarrow> job option" where
  "get_job k st = jobs st k"

section \<open>Runs of the system\<close>

text \<open>
  The threads of the process interleave the operations above. A run is a sequence of
  events: a request served, an iteration of the scheduler loop, an \<open>execute_job\<close> thread
  running to its end, or the process being restarted on its database. Each event is
  one step: the interleaving of two operations inside their bodies is not modelled.
\<close>

datatype event =
    Create real create_req string
  | Cancel string
  | Tick real
  | Finish real bool string
  | Restart

fun apply_event :: "event \<Rightarrow> state \<Rightarrow> state" where
  "apply_event (Create now data new_id) st = snd (create_job now data new_id st)"
| "apply_event (Cancel k) st = snd (delete_job k st)"
| "apply_event (Tick now) st = snd (scheduler_iter now st)"
| "apply_event (Finish now ok k) st =
     (if k \<in> set (threads st)
      then execute_job now ok k (st\<lparr>threads := remove1 k (threads st)\<rparr>)
      else st)"
| "apply_event Restart st = boot (db st)"

fun run :: "event list \<Rightarrow> state \<Rightarrow> state" where
  "run [] st = st"
| "run (e # es) st = run es (apply_event e st)"

text \<open>\<open>uuid4\<close> never returns an id already in use: every created id is new to \<open>jobs\<close>.\<close>

fun fresh_ids :: "event list \<Rightarrow> state \<Rightarrow> bool" where
  "fresh_ids [] st = True"
| "fresh_ids (Create now data new_id # es) st =
     (jobs st new_id = None \<and> fresh_ids es (apply_event (Create now data new_id) st))"
| "fresh_ids (e # es) st = fresh_ids es (apply_event e st)"

fun no_restart :: "event list \<Rightarrow> bool" where
  "no_restart [] = True"
| "no_restart (Restart # es) = False"
| "no_restart (e # es) = no_restart es"

text \<open>
  The pending work for an id: its entries in the heap plus its threads not yet run.
\<close>

definition entries :: "string \<Rightarrow> entry list \<Rightarrow> nat" where
  "entries k h = count_list (map snd h) k"

definition pending :: "string \<Rightarrow> state \<Rightarrow> nat" where
  "pending k st = entries k (heap st) + count_list (threads st) k"

section \<open>Invariants of the runs\<close>

text \<open>
  What holds for the key \<open>k\<close> of \<open>jobs\<close>: an id without a job has no pending work; a
  job is stored under its own id and has at most one pending item; a scheduled job has
  exactly one, a done job none.
\<close>

definition key_ok :: "string \<Rightarrow> state \<Rightarrow> bool" where
  "key_ok k st =
     (case jobs st k of
        None \<Rightarrow> pending k st = 0
      | Some j \<Rightarrow> job_id j = k \<and> pending k st \<le> 1
          \<and> (status j = Scheduled \<longrightarrow> pending k st = 1)
          \<and> (status j = Done \<longrightarrow> pending k st = 0))"

definition queue_inv :: "state \<Rightarrow> bool" where
  "queue_inv st \<longleftrightarrow> (\<forall>k. key_ok k st)"

text \<open>The rows that \<open>load_jobs_at_start\<close> selects from the table.\<close>

definition active_rows :: "job list \<Rightarrow> job list" where
  "active_rows ws = filter (\<lambda>r. status r \<noteq> Done) (db_rows ws)"

text \<open>Requests used in the scenarios below.\<close>

definition plain_req :: "real \<Rightarrow> create_req" where
  "plain_req d = \<lparr>req_delay = Some d, req_payload = None, req_recurring = None,
     req_interval = None\<rparr>"

text \<open>A row of the jobs table, for the scenarios below.\<close>

definition mk_job :: "string \<Rightarrow> real \<Rightarrow> status \<Rightarrow> int \<Rightarrow> job" where
  "mk_job k t s n = \<lparr>job_id = k, run_at = t, payload = [], status = s, retries = n,
     recurring = False, interval = 0\<rparr>"

text \<open>
  A job created with delay 0 whose work fails at each of its four attempts, each one
  started by the scheduler once the retry time has come.
\<close>

definition fail4 :: "event list" where
  "fail4 = [Create 0 (plain_req 0) ''a'', Tick 0, Finish 1 False ''a'', Tick 3,
     Finish 4 False ''a'', Tick 6, Finish 7 False ''a'', Tick 9, Finish 10 False ''a'']"

text \<open>A dead job has used up its retries.\<close>

definition dead_ok :: "job \<Rightarrow> bool" where
  "dead_ok j = (status j = Dead \<longrightarrow> 3 < retries j)"

definition dead_inv :: "state \<Rightarrow> bool" where
  "dead_inv st \<longleftrightarrow> (\<forall>k j. jobs st k = Some j \<longrightarrow> dead_ok j) \<and> (\<forall>j \<in> set (db st). dead_ok j)"

text \<open>
  What holds for the retries of a job in a process run without restart: never more
  than 4, at most 3 while the job is pending, and exactly 4 once it is dead.
\<close>

definition retry_ok :: "string \<Rightarrow> state \<Rightarrow> bool" where
  "retry_ok k st =
     (case jobs st k of
        None \<Rightarrow> True
      | Some j \<Rightarrow> retries j \<le> 4 \<and> (0 < pending k st \<longrightarrow> retries j \<le> 3)
          \<and> (status j = Dead \<longrightarrow> retries j = 4))"

definition retry_inv :: "state \<Rightarrow> bool" where
  "retry_inv st \<longleftrightarrow> (\<forall>k. retry_ok k st)"

text \<open>
  The number of \<open>execute_job\<close> runs for the job \<open>k\<close> in a run of the system, and the
  runs in which the work of \<open>k\<close> fails every time.
\<close>

fun attempts :: "string \<Rightarrow> event list \<Rightarrow> state \<Rightarrow> nat" where
  "attempts k [] st = 0"
| "attempts k (Finish now ok k' # es) st =
     (if k' = k \<and> k \<in> set (threads st) then 1 else 0)
       + attempts k es (apply_event (Finish now ok k') st)"
| "attempts k (e # es) st = attempts k es (apply_event e st)"

fun always_fails :: "string \<Rightarrow> event list \<Rightarrow> bool" where
  "always_fails k [] = True"
| "always_fails k (Finish now ok k' # es) = ((if k' = k then \<not> ok else True) \<and> always_fails k es)"
| "always_fails k (e # es) = always_fails k es"

text \<open>
  What holds for a job whose work has failed \<open>n\<close> times and never succeeded: through
  the third failure it is pending once, after the fourth it is not pending any more.
\<close>

definition fail_inv :: "string \<Rightarrow> nat \<Rightarrow> state \<Rightarrow> bool" where
  "fail_inv k n st =
     (case jobs st k of
        None \<Rightarrow> n = 0
      | Some j \<Rightarrow> retries j = int n
          \<and> (n \<le> 3 \<longrightarrow> pending k st = 1 \<and> (status j = Scheduled \<or> status j = Cancelled))
          \<and> (3 < n \<longrightarrow> n = 4 \<and> pending k st = 0 \<and> (status j = Dead \<or> status j = Cancelled)))"

text \<open>
  The events that leave the job \<open>k\<close> alone: no cancellation of \<open>k\<close>, and no new job
  under the id \<open>k\<close>.
\<close>

fun untouched :: "string \<Rightarrow> event list \<Rightarrow> bool" where
  "untouched k [] = True"
| "untouched k (Create now data new_id # es) = (new_id \<noteq> k \<and> untouched k es)"
| "untouched k (Cancel k' # es) = (k' \<noteq> k \<and> untouched k es)"
| "untouched k (e # es) = untouched k es"

text \<open>The row of the jobs table with primary key \<open>k\<close>.\<close>

definition db_row :: "string \<Rightarrow> job list \<Rightarrow> job option" where
  "db_row k ws = find (\<lambda>r. job_id r = k) (db_rows ws)"

text \<open>
  What holds for a job that is done: nothing is pending for it, its row in the table is
  the done job, and \<open>jobs\<close> holds the same or, after a restart, nothing under its id.
\<close>

definition done_inv :: "string \<Rightarrow> job \<Rightarrow> state \<Rightarrow> bool" where
  "done_inv k jd st \<longleftrightarrow>
     pending k st = 0 \<and> (jobs st k = None \<or> jobs st k = Some jd) \<and> db_row k (db st) = Some jd"

text \<open>More scenarios: requests, runs and the states they lead to.\<close>

definition recurring_req :: "real \<Rightarrow> real \<Rightarrow> create_req" where
  "recurring_req d i = \<lparr>req_delay = Some d, req_payload = None, req_recurring = Some True,
     req_interval = Some i\<rparr>"

definition rec_job :: "real \<Rightarrow> status \<Rightarrow> job" where
  "rec_job t s = \<lparr>job_id = ''a'', run_at = t, payload = [], status = s, retries = 0,
     recurring = True, interval = 10\<rparr>"

definition fail1 :: "event list" where
  "fail1 = [Create 0 (plain_req 0) ''a'', Tick 0, Finish 1 False ''a'']"

definition fail3 :: "event list" where
  "fail3 = [Create 0 (plain_req 0) ''a'', Tick 0, Finish 1 False ''a'', Tick 3,
     Finish 4 False ''a'', Tick 6, Finish 7 False ''a'', Tick 9]"

definition after_done :: "event list" where
  "after_done = [Create 2 (plain_req 0) ''b'', Tick 2, Restart, Tick 3]"

definition started :: state where
  "started = run [Create 0 (plain_req 0) ''a'', Tick 0] init"

definition started_recurring :: state where
  "started_recurring = run [Create 0 (recurring_req 0 10) ''a'', Tick 0] init"

text \<open>Three jobs submitted in the order b, a, c; b and a are due at 1, c at 6.\<close>

definition tie3 :: state where
  "tie3 = run [Create 0 (plain_req 1) ''b'', Create 1 (plain_req 0) ''a'',
     Create 1 (plain_req 5) ''c''] init"

lemmas op_defs = create_job_def delete_job_def scheduler_iter_def execute_job_def
  persist_job_def heappush_def heappop_def init_def plain_req_def Let_def

lemmas row_defs = db_rows_def replace_row_def mk_job_def

lemmas boot_defs = boot_def load_jobs_at_start_def db_rows_def replace_row_def load_row_def

section \<open>Basic facts about the heap and the counters\<close>

lemma heap_top_mem: "heap_top h = Some e \<Longrightarrow> e \<in> set h"
  by (induction h arbitrary: e) (auto split: option.splits if_splits)

lemma heap_top_None: "heap_top h = None \<longleftrightarrow> h = []"
  by (cases h) (auto split: option.splits)

lemma count_list_remove1:
  "count_list (remove1 x xs) y = (if x = y \<and> x \<in> set xs then count_list xs y - 1 else count_list xs y)"
  by (induction xs) auto

lemma count_list_pos: "x \<in> set xs \<Longrightarrow> 0 < count_list xs x"
  by (induction xs) auto

lemma entries_push: "entries k (heappush h e) = entries k h + (if snd e = k then 1 else 0)"
  by (simp add: entries_def heappush_def)

lemma entries_pos: "e \<in> set h \<Longrightarrow> 0 < entries (snd e) h"
  by (induction h) (auto simp: entries_def)

lemma entries_remove1:
  "e \<in> set h \<Longrightarrow> entries k (remove1 e h) = (if snd e = k then entries k h - 1 else entries k h)"
proof (induction h)
  case Nil
  then show ?case by simp
next
  case (Cons a h)
  show ?case
  proof (cases "e = a")
    case True
    then show ?thesis by (simp add: entries_def)
  next
    case False
    with Cons.prems have mem: "e \<in> set h" by simp
    from entries_pos[OF mem] Cons.IH[OF mem] False show ?thesis
      by (auto simp: entries_def)
  qed
qed

lemma queue_invD: "queue_inv st \<Longrightarrow> key_ok k st"
  by (simp add: queue_inv_def)

lemma queue_inv_init: "queue_inv init"
  by (simp add: queue_inv_def key_ok_def init_def pending_def entries_def)

lemma queue_inv_create:
  assumes "queue_inv st" "jobs st new_id = None"
  shows "queue_inv (snd (create_job now data new_id st))"
  unfolding queue_inv_def
proof
  fix k
  from assms have "key_ok new_id st" "key_ok k st" by (simp_all add: queue_inv_def)
  with assms(2) show "key_ok k (snd (create_job now data new_id st))"
    by (cases "k = new_id")
       (auto simp: key_ok_def create_job_def persist_job_def Let_def pending_def entries_push
             split: option.splits)
qed

lemma queue_inv_delete:
  assumes "queue_inv st"
  shows "queue_inv (snd (delete_job k0 st))"
  unfolding queue_inv_def
proof
  fix k
  from assms have "key_ok k0 st" "key_ok k st" by (simp_all add: queue_inv_def)
  then show "key_ok k (snd (delete_job k0 st))"
    by (cases "k = k0")
       (auto simp: key_ok_def delete_job_def persist_job_def Let_def pending_def
             split: option.splits)
qed

lemma scheduler_iter_jobs: "jobs (snd (scheduler_iter now st)) = jobs st"
  by (simp add: scheduler_iter_def heappop_def Let_def split: option.splits prod.splits)

lemma scheduler_iter_pending:
  assumes "queue_inv st"
  shows "pending k (snd (scheduler_iter now st)) = pending k st"
proof (cases "heap_top (heap st)")
  case None
  then show ?thesis by (simp add: scheduler_iter_def heappop_def)
next
  case (Some e)
  obtain t i where e: "e = (t, i)" by (cases e)
  from Some e have mem: "(t, i) \<in> set (heap st)" by (simp add: heap_top_mem)
  from entries_pos[OF mem] have pos: "0 < entries i (heap st)" by simp
  then have "pending i st \<noteq> 0" by (simp add: pending_def)
  with queue_invD[OF assms, of i] obtain j where j: "jobs st i = Some j"
    by (auto simp: key_ok_def split: option.splits)
  show ?thesis
  proof (cases "t \<le> now")
    case True
    with Some e j pos show ?thesis
      by (auto simp: scheduler_iter_def heappop_def Let_def pending_def entries_remove1[OF mem])
  next
    case False
    with Some e show ?thesis by (simp add: scheduler_iter_def heappop_def)
  qed
qed

lemma queue_inv_tick:
  assumes "queue_inv st"
  shows "queue_inv (snd (scheduler_iter now st))"
  using assms
  by (simp add: queue_inv_def key_ok_def scheduler_iter_jobs scheduler_iter_pending[OF assms]
        cong: option.case_cong)

lemma execute_job_threads: "threads (execute_job now ok k st) = threads st"
  by (simp add: execute_job_def persist_job_def Let_def split: option.splits)

lemma queue_inv_finish:
  assumes "queue_inv st" "k0 \<in> set (threads st)"
  shows "queue_inv (execute_job now ok k0 (st\<lparr>threads := remove1 k0 (threads st)\<rparr>))"
  unfolding queue_inv_def
proof
  fix k
  let ?st1 = "st\<lparr>threads := remove1 k0 (threads st)\<rparr>"
  from count_list_pos[OF assms(2)] have pos: "0 < count_list (threads st) k0" .
  then have "pending k0 st \<noteq> 0" by (simp add: pending_def)
  with queue_invD[OF assms(1), of k0] obtain j where j: "jobs st k0 = Some j"
    and jid: "job_id j = k0" and one: "pending k0 st = 1"
    by (auto simp: key_ok_def split: option.splits)
  from one pos have h0: "entries k0 (heap st) = 0" and c1: "count_list (threads st) k0 = 1"
    by (simp_all add: pending_def)
  show "key_ok k (execute_job now ok k0 ?st1)"
  proof (cases "k = k0")
    case True
    with j jid h0 c1 assms(2) show ?thesis
      by (simp add: key_ok_def execute_job_def persist_job_def Let_def pending_def
            entries_push count_list_remove1)
  next
    case False
    with queue_invD[OF assms(1), of k] j jid show ?thesis
      by (simp add: key_ok_def execute_job_def persist_job_def Let_def pending_def
            entries_push count_list_remove1 split: option.splits)
  qed
qed

section \<open>Startup loading\<close>

lemma db_rows_snoc: "db_rows (ws @ [w]) = replace_row (db_rows ws) w"
  by (simp add: db_rows_def)

lemma db_rows_distinct: "distinct (map job_id (db_rows ws))"
proof (induction ws rule: rev_induct)
  case Nil
  then show ?case by (simp add: db_rows_def)
next
  case (snoc w ws)
  then show ?case
    by (auto simp: db_rows_snoc replace_row_def distinct_map_filter)
qed

lemma load_rows_snoc: "foldl load_row st (rs @ [r]) = load_row (foldl load_row st rs) r"
  by simp

lemma load_rows_threads: "threads (foldl load_row st rs) = threads st"
  by (induction rs rule: rev_induct) (simp_all add: load_row_def)

lemma load_rows_db: "db (foldl load_row st rs) = db st"
  by (induction rs rule: rev_induct) (simp_all add: load_row_def)

lemma load_rows_heap:
  "heap (foldl load_row st rs) = heap st @ map (\<lambda>r. (run_at r, job_id r)) rs"
  by (induction rs rule: rev_induct) (simp_all add: load_row_def heappush_def)

lemma load_rows_jobs_other:
  "k \<notin> job_id ` set rs \<Longrightarrow> jobs (foldl load_row st rs) k = jobs st k"
  by (induction rs rule: rev_induct) (auto simp: load_row_def)

lemma load_rows_jobs_mem:
  "distinct (map job_id rs) \<Longrightarrow> r \<in> set rs \<Longrightarrow> jobs (foldl load_row st rs) (job_id r) = Some r"
proof (induction rs rule: rev_induct)
  case Nil
  then show ?case by simp
next
  case (snoc x xs)
  show ?case
  proof (cases "r = x")
    case True
    then show ?thesis by (simp add: load_row_def)
  next
    case False
    with snoc.prems have mem: "r \<in> set xs" and d: "distinct (map job_id xs)"
      and nx: "job_id x \<notin> job_id ` set xs" by auto
    from mem nx have "job_id r \<noteq> job_id x" by (metis imageI)
    with snoc.IH[OF d mem] show ?thesis by (simp add: load_row_def)
  qed
qed

lemma entries_append: "entries k (h1 @ h2) = entries k h1 + entries k h2"
  by (simp add: entries_def)

lemma entries_rows:
  "entries k (map (\<lambda>r. (run_at r, job_id r)) rs) = count_list (map job_id rs) k"
  by (simp add: entries_def comp_def)

lemma count_list_distinct:
  "distinct xs \<Longrightarrow> count_list xs x = (if x \<in> set xs then 1 else 0)"
  by (induction xs) auto

lemma count_list_zero: "x \<notin> set xs \<Longrightarrow> count_list xs x = 0"
  by (induction xs) auto

lemma active_rows_distinct: "distinct (map job_id (active_rows ws))"
  using db_rows_distinct[of ws] by (simp add: active_rows_def distinct_map_filter)

lemma boot_eq:
  "boot ws = foldl load_row \<lparr>jobs = Map.empty, heap = [], db = ws, threads = []\<rparr> (active_rows ws)"
  by (simp add: boot_def load_jobs_at_start_def active_rows_def)

lemma boot_pending:
  "pending k (boot ws) = (if k \<in> job_id ` set (active_rows ws) then 1 else 0)"
  using active_rows_distinct[of ws]
  by (simp add: pending_def boot_eq load_rows_heap load_rows_threads entries_rows
        count_list_distinct)

lemma boot_jobs_mem: "r \<in> set (active_rows ws) \<Longrightarrow> jobs (boot ws) (job_id r) = Some r"
  by (simp add: boot_eq load_rows_jobs_mem active_rows_distinct)

lemma boot_jobs_other: "k \<notin> job_id ` set (active_rows ws) \<Longrightarrow> jobs (boot ws) k = None"
  by (simp add: boot_eq load_rows_jobs_other)

lemma queue_inv_boot: "queue_inv (boot ws)"
  unfolding queue_inv_def
proof
  fix k
  show "key_ok k (boot ws)"
  proof (cases "k \<in> job_id ` set (active_rows ws)")
    case True
    then obtain r where r: "r \<in> set (active_rows ws)" and k: "k = job_id r" by auto
    from r have "status r \<noteq> Done" by (simp add: active_rows_def)
    with r k boot_jobs_mem[OF r] True show ?thesis
      by (simp add: key_ok_def boot_pending)
  next
    case False
    with boot_jobs_other[OF False] show ?thesis
      by (simp add: key_ok_def boot_pending)
  qed
qed

lemma queue_inv_event:
  assumes "queue_inv st" "fresh_ids [e] st"
  shows "queue_inv (apply_event e st)"
proof (cases e)
  case (Create now data new_id)
  with assms show ?thesis by (simp add: queue_inv_create)
next
  case (Cancel k)
  with assms show ?thesis by (simp add: queue_inv_delete)
next
  case (Tick now)
  with assms show ?thesis by (simp add: queue_inv_tick)
next
  case (Finish now ok k)
  with assms show ?thesis by (simp add: queue_inv_finish)
next
  case Restart
  then show ?thesis by (simp add: queue_inv_boot)
qed

lemma fresh_ids_Cons: "fresh_ids (e # es) st \<longleftrightarrow> fresh_ids [e] st \<and> fresh_ids es (apply_event e st)"
  by (cases e) simp_all

lemma queue_inv_run: "queue_inv st \<Longrightarrow> fresh_ids es st \<Longrightarrow> queue_inv (run es st)"
proof (induction es arbitrary: st)
  case Nil
  then show ?case by simp
next
  case (Cons e es)
  from Cons.prems(2) have f1: "fresh_ids [e] st" and f2: "fresh_ids es (apply_event e st)"
    using fresh_ids_Cons[of e es st] by blast+
  from Cons.IH[OF queue_inv_event[OF Cons.prems(1) f1] f2] show ?case by simp
qed

section \<open>The queue invariant\<close>

text \<open>
  Claim C1, as the code has it. The claim says that a job is scheduled exactly when the
  heap holds one entry for it. An iteration of the scheduler loop pops the entry and
  leaves the status alone, so a scheduled job whose thread has started has no entry.
  What holds in every state reached from the empty system by requests, scheduler
  iterations, executor runs and restarts: counting the heap entries of an id together
  with its started threads, a job never has more than one pending item, a scheduled job
  has exactly one and a done job has none.
\<close>

theorem C1_pending_invariant:
  assumes "fresh_ids es init" and "jobs (run es init) k = Some j"
  shows "pending k (run es init) \<le> 1
     \<and> (status j = Scheduled \<longrightarrow> pending k (run es init) = 1)
     \<and> (status j = Done \<longrightarrow> pending k (run es init) = 0)"
proof -
  have "key_ok k (run es init)"
    by (rule queue_invD[OF queue_inv_run[OF queue_inv_init assms(1)]])
  with assms(2) show ?thesis by (simp add: key_ok_def)
qed

theorem C1_pending_invariant_witness:
  "fresh_ids [Create 0 (plain_req 0) ''a'', Create 0 (plain_req 5) ''b'', Tick 0,
       Finish 1 True ''a''] init
   \<and> pending ''b'' (run [Create 0 (plain_req 0) ''a'', Create 0 (plain_req 5) ''b'', Tick 0,
       Finish 1 True ''a''] init) = 1
   \<and> pending ''a'' (run [Create 0 (plain_req 0) ''a'', Create 0 (plain_req 5) ''b'', Tick 0,
       Finish 1 True ''a''] init) = 0"
  using C1_pending_invariant [of "[Create 0 (plain_req 0) ''a'', Create 0 (plain_req 5) ''b'',
      Tick 0, Finish 1 True ''a'']" "''b''"
      "the (jobs (run [Create 0 (plain_req 0) ''a'', Create 0 (plain_req 5) ''b'', Tick 0,
       Finish 1 True ''a''] init) ''b'')"]
    C1_pending_invariant [of "[Create 0 (plain_req 0) ''a'', Create 0 (plain_req 5) ''b'',
      Tick 0, Finish 1 True ''a'']" "''a''"
      "the (jobs (run [Create 0 (plain_req 0) ''a'', Create 0 (plain_req 5) ''b'', Tick 0,
       Finish 1 True ''a''] init) ''a'')"]
  by (simp add: op_defs)

text \<open>
  The claim as stated fails after a scheduler iteration: the job created with delay 0
  is popped at time 0, its status is still scheduled and the heap has no entry for it.
\<close>

theorem C1_scheduled_without_entry:
  "map_option status (jobs (run [Create 0 (plain_req 0) ''a'', Tick 0] init) ''a'') = Some Scheduled
   \<and> entries ''a'' (heap (run [Create 0 (plain_req 0) ''a'', Tick 0] init)) = 0"
  by (simp add: op_defs entries_def)

section \<open>Cancellation\<close>

text \<open>
  Claim C2. The claim asks that a cancelled job is never dispatched and has no entry in
  the queue. \<open>delete_job\<close> only sets the status and persists; the entry stays on the
  heap and \<open>scheduler_loop\<close> does not look at the status. In scenario 4 of the spec
  (delay 60, cancelled at once, scheduler iteration at time 61) the code starts the
  executor thread for the cancelled job, and a successful run overwrites the status
  with done.
\<close>

theorem C2_cancelled_job_is_dispatched:
  "map_option status (jobs (run [Create 0 (plain_req 60) ''a'', Cancel ''a''] init) ''a'')
     = Some Cancelled
   \<and> heap (run [Create 0 (plain_req 60) ''a'', Cancel ''a''] init) = [(60, ''a'')]
   \<and> fst (scheduler_iter 61 (run [Create 0 (plain_req 60) ''a'', Cancel ''a''] init)) = Some ''a''
   \<and> map_option status (jobs (run [Create 0 (plain_req 60) ''a'', Cancel ''a'', Tick 61,
        Finish 62 True ''a''] init) ''a'') = Some Done"
  by (simp add: op_defs)

text \<open>
  Claim C3, as the code has it. \<open>delete_job\<close> does not look at the current status: for
  every id in \<open>jobs\<close> it sets the status to cancelled, persists the row and answers ok,
  leaving the other fields, the heap and the threads as they are; for an unknown id it
  answers not found and changes nothing. A second call on the same id leaves \<open>jobs\<close>
  and the heap as the first one left them.
\<close>

theorem C3_cancel_any_status:
  "(jobs st k = None \<longrightarrow> delete_job k st = (NotFound, st))
   \<and> (\<forall>j. jobs st k = Some j \<longrightarrow>
        delete_job k st =
          (Ok, st\<lparr>jobs := (jobs st)(k \<mapsto> j\<lparr>status := Cancelled\<rparr>),
                  db := db st @ [j\<lparr>status := Cancelled\<rparr>]\<rparr>)
        \<and> jobs (snd (delete_job k (snd (delete_job k st)))) = jobs (snd (delete_job k st))
        \<and> heap (snd (delete_job k (snd (delete_job k st)))) = heap st)"
  by (auto simp: delete_job_def persist_job_def Let_def)

theorem C3_cancel_any_status_witness:
  "jobs init ''a'' = None \<and> fst (delete_job ''a'' init) = NotFound
   \<and> jobs (run [Create 0 (plain_req 0) ''a'', Tick 0, Finish 1 True ''a''] init) ''a''
       = Some (mk_job ''a'' 0 Done 0)
   \<and> fst (delete_job ''a'' (run [Create 0 (plain_req 0) ''a'', Tick 0, Finish 1 True ''a''] init)) = Ok
   \<and> jobs (snd (delete_job ''a'' (run [Create 0 (plain_req 0) ''a'', Tick 0, Finish 1 True ''a''] init))) ''a''
       = Some (mk_job ''a'' 0 Cancelled 0)"
  using C3_cancel_any_status [of init "''a''"]
    C3_cancel_any_status [of "run [Create 0 (plain_req 0) ''a'', Tick 0, Finish 1 True ''a''] init" "''a''"]
  by (simp add: op_defs mk_job_def)

text \<open>
  The claim as stated fails for a job that is done: cancelling it changes its status to
  cancelled.
\<close>

theorem C3_done_job_cancelled:
  "map_option status (jobs (run [Create 0 (plain_req 0) ''a'', Tick 0, Finish 1 True ''a''] init) ''a'')
     = Some Done
   \<and> map_option status (jobs (run [Create 0 (plain_req 0) ''a'', Tick 0, Finish 1 True ''a'',
        Cancel ''a''] init) ''a'') = Some Cancelled"
  by (simp add: op_defs)

section \<open>Dispatch\<close>

text \<open>
  Claim C6, as the code has it. When the least entry of the heap is due and its job is
  scheduled, the scheduler iteration removes the entry and starts the executor thread;
  the status is still scheduled afterwards (no operation ever sets running), and a run
  whose work succeeds then sets it to done (or back to scheduled for a recurring job).
\<close>

theorem C6_dispatch_keeps_status:
  assumes "heap_top (heap st) = Some (t, i)" and "t \<le> now" and "jobs st i = Some j"
    and "status j = Scheduled"
  shows "scheduler_iter now st
           = (Some i, st\<lparr>heap := remove1 (t, i) (heap st), threads := threads st @ [i]\<rparr>)
    \<and> map_option status (jobs (snd (scheduler_iter now st)) i) = Some Scheduled
    \<and> map_option status (jobs (execute_job now' True i (snd (scheduler_iter now st))) i)
        = Some (if recurring j then Scheduled else Done)"
  using assms by (simp add: scheduler_iter_def heappop_def execute_job_def persist_job_def Let_def)

theorem C6_dispatch_keeps_status_witness:
  "heap_top (heap (snd (create_job 0 (plain_req 0) ''a'' init))) = Some (0, ''a'')
   \<and> (0::real) \<le> 0
   \<and> map_option status (jobs (snd (create_job 0 (plain_req 0) ''a'' init)) ''a'') = Some Scheduled
   \<and> fst (scheduler_iter 0 (snd (create_job 0 (plain_req 0) ''a'' init))) = Some ''a''
   \<and> map_option status (jobs (execute_job 1 True ''a''
        (snd (scheduler_iter 0 (snd (create_job 0 (plain_req 0) ''a'' init))))) ''a'') = Some Done"
  using C6_dispatch_keeps_status [of "snd (create_job 0 (plain_req 0) ''a'' init)" 0 "''a''" 0
      "mk_job ''a'' 0 Scheduled 0" 1]
  by (simp add: op_defs mk_job_def)

text \<open>
  The claim as stated fails at the first dispatch: the thread has been started and the
  status is scheduled, not running.
\<close>

theorem C6_no_running_status:
  "fst (scheduler_iter 0 (snd (create_job 0 (plain_req 0) ''a'' init))) = Some ''a''
   \<and> threads (snd (scheduler_iter 0 (snd (create_job 0 (plain_req 0) ''a'' init)))) = [''a'']
   \<and> map_option status (jobs (snd (scheduler_iter 0 (snd (create_job 0 (plain_req 0) ''a'' init)))) ''a'')
       = Some Scheduled"
  by (simp add: op_defs)

section \<open>Submission\<close>



section \<open>Dead jobs\<close>

lemma dead_inv_init: "dead_inv init"
  by (simp add: dead_inv_def init_def)

lemma dead_inv_create: "dead_inv st \<Longrightarrow> dead_inv (snd (create_job now data new_id st))"
  by (auto simp: dead_inv_def dead_ok_def create_job_def persist_job_def Let_def)

lemma dead_inv_delete: "dead_inv st \<Longrightarrow> dead_inv (snd (delete_job k st))"
  by (auto simp: dead_inv_def dead_ok_def delete_job_def persist_job_def Let_def
      split: option.splits if_splits)

lemma scheduler_iter_db: "db (snd (scheduler_iter now st)) = db st"
  by (simp add: scheduler_iter_def heappop_def Let_def split: option.splits prod.splits)

lemma dead_inv_tick: "dead_inv st \<Longrightarrow> dead_inv (snd (scheduler_iter now st))"
  by (simp add: dead_inv_def scheduler_iter_jobs scheduler_iter_db)

lemma dead_inv_threads: "dead_inv (st\<lparr>threads := ts\<rparr>) = dead_inv st"
  by (simp add: dead_inv_def)

lemma dead_inv_execute: "dead_inv st \<Longrightarrow> dead_inv (execute_job now ok k st)"
  by (auto simp: dead_inv_def dead_ok_def execute_job_def persist_job_def Let_def
      split: option.splits if_splits)

lemma db_rows_subset: "set (db_rows ws) \<subseteq> set ws"
proof (induction ws rule: rev_induct)
  case Nil
  then show ?case by (simp add: db_rows_def)
next
  case (snoc w ws)
  then show ?case by (auto simp: db_rows_snoc replace_row_def)
qed

lemma load_rows_jobs_range:
  "jobs (foldl load_row st rs) k = Some j \<Longrightarrow> j \<in> set rs \<or> jobs st k = Some j"
proof (induction rs rule: rev_induct)
  case Nil
  then show ?case by simp
next
  case (snoc r rs)
  then show ?case by (auto simp: load_row_def split: if_splits)
qed

lemma boot_db: "db (boot ws) = ws"
  by (simp add: boot_eq load_rows_db)

lemma boot_jobs_range: "jobs (boot ws) k = Some j \<Longrightarrow> j \<in> set ws"
proof -
  assume "jobs (boot ws) k = Some j"
  then have "j \<in> set (active_rows ws)"
    using load_rows_jobs_range[of "\<lparr>jobs = Map.empty, heap = [], db = ws, threads = []\<rparr>" "active_rows ws" k j]
    by (simp add: boot_eq)
  then have "j \<in> set (db_rows ws)" by (simp add: active_rows_def)
  with db_rows_subset show ?thesis by blast
qed

lemma dead_inv_boot: "dead_inv st \<Longrightarrow> dead_inv (boot (db st))"
  unfolding dead_inv_def using boot_jobs_range[of "db st"] by (auto simp: boot_db)

lemma dead_inv_event: "dead_inv st \<Longrightarrow> dead_inv (apply_event e st)"
proof (cases e)
  case (Finish now ok k)
  assume "dead_inv st"
  then have "dead_inv (execute_job now ok k (st\<lparr>threads := remove1 k (threads st)\<rparr>))"
    by (intro dead_inv_execute) (simp add: dead_inv_threads)
  with \<open>dead_inv st\<close> Finish show ?thesis by simp
qed (simp_all add: dead_inv_create dead_inv_delete dead_inv_tick dead_inv_boot)

lemma dead_inv_run: "dead_inv st \<Longrightarrow> dead_inv (run es st)"
  by (induction es arbitrary: st) (simp_all add: dead_inv_event)

section \<open>Loading at startup\<close>

text \<open>
  Claim C10. In a fresh process, \<open>load_jobs_at_start\<close> puts every row of the jobs table
  whose status is not done, whatever else the status is, into \<open>jobs\<close> under its id and
  pushes exactly one entry for it, keyed by the row's \<open>run_at\<close>.
\<close>

theorem C10_startup_load:
  assumes "r \<in> set (db_rows ws)" and "status r \<noteq> Done"
  shows "jobs (load_jobs_at_start \<lparr>jobs = Map.empty, heap = [], db = ws, threads = []\<rparr>) (job_id r) = Some r
    \<and> entries (job_id r) (heap (load_jobs_at_start \<lparr>jobs = Map.empty, heap = [], db = ws, threads = []\<rparr>)) = 1
    \<and> (run_at r, job_id r) \<in> set (heap (load_jobs_at_start \<lparr>jobs = Map.empty, heap = [], db = ws, threads = []\<rparr>))"
proof -
  from assms have mem: "r \<in> set (active_rows ws)" by (simp add: active_rows_def)
  have b: "load_jobs_at_start \<lparr>jobs = Map.empty, heap = [], db = ws, threads = []\<rparr> = boot ws"
    by (simp add: boot_def)
  from mem have "entries (job_id r) (heap (boot ws)) = 1"
    using boot_pending[of "job_id r" ws] by (simp add: pending_def boot_eq load_rows_threads)
  moreover from mem have "(run_at r, job_id r) \<in> set (heap (boot ws))"
    by (auto simp: boot_eq load_rows_heap)
  ultimately show ?thesis using boot_jobs_mem[OF mem] by (simp add: b)
qed

theorem C10_startup_load_witness:
  "mk_job ''a'' 7 Cancelled 0 \<in> set (db_rows [mk_job ''a'' 7 Scheduled 0, mk_job ''b'' 3 Dead 4,
       mk_job ''c'' 1 Done 0, mk_job ''a'' 7 Cancelled 0])
   \<and> status (mk_job ''a'' 7 Cancelled 0) \<noteq> Done
   \<and> jobs (load_jobs_at_start \<lparr>jobs = Map.empty, heap = [],
        db = [mk_job ''a'' 7 Scheduled 0, mk_job ''b'' 3 Dead 4, mk_job ''c'' 1 Done 0,
              mk_job ''a'' 7 Cancelled 0], threads = []\<rparr>) ''a'' = Some (mk_job ''a'' 7 Cancelled 0)
   \<and> entries ''a'' (heap (load_jobs_at_start \<lparr>jobs = Map.empty, heap = [],
        db = [mk_job ''a'' 7 Scheduled 0, mk_job ''b'' 3 Dead 4, mk_job ''c'' 1 Done 0,
              mk_job ''a'' 7 Cancelled 0], threads = []\<rparr>)) = 1"
  using C10_startup_load [of "mk_job ''a'' 7 Cancelled 0"
      "[mk_job ''a'' 7 Scheduled 0, mk_job ''b'' 3 Dead 4, mk_job ''c'' 1 Done 0,
        mk_job ''a'' 7 Cancelled 0]"]
  by (simp add: row_defs)

section \<open>Single operations\<close>

lemma create_job_pending:
  "pending k (snd (create_job now data new_id st)) = pending k st + (if new_id = k then 1 else 0)"
  by (simp add: create_job_def persist_job_def Let_def pending_def entries_push)

lemma create_job_jobs_other:
  "k \<noteq> new_id \<Longrightarrow> jobs (snd (create_job now data new_id st)) k = jobs st k"
  by (simp add: create_job_def persist_job_def Let_def)

lemma delete_job_pending: "pending k (snd (delete_job k' st)) = pending k st"
  by (simp add: delete_job_def persist_job_def Let_def pending_def split: option.splits)

lemma delete_job_jobs:
  "jobs (snd (delete_job k' st)) k =
     (if k = k' then map_option (\<lambda>j. j\<lparr>status := Cancelled\<rparr>) (jobs st k) else jobs st k)"
  by (simp add: delete_job_def persist_job_def Let_def split: option.splits)

lemma execute_job_jobs_other:
  "k \<noteq> k' \<Longrightarrow> jobs (execute_job now ok k' st) k = jobs st k"
  by (simp add: execute_job_def persist_job_def Let_def split: option.splits)

lemma execute_job_pending_other:
  assumes "jobs st k' = Some j'" "job_id j' = k'" "k \<noteq> k'"
  shows "pending k (execute_job now ok k' st) = pending k st"
  using assms by (simp add: execute_job_def persist_job_def Let_def pending_def entries_push)

lemma pending_threads_remove1:
  "pending k (st\<lparr>threads := remove1 k' (threads st)\<rparr>) =
     (if k' = k \<and> k \<in> set (threads st) then pending k st - 1 else pending k st)"
proof (cases "k \<in> set (threads st)")
  case True
  with count_list_pos[OF this] show ?thesis
    by (simp add: pending_def count_list_remove1)
next
  case False
  then show ?thesis by (auto simp: pending_def count_list_remove1)
qed

lemma execute_job_fail:
  assumes "jobs st k = Some j"
  shows "(retries j + 1 \<le> 3 \<longrightarrow>
            execute_job now False k st =
              st\<lparr>jobs := (jobs st)(k \<mapsto> j\<lparr>retries := retries j + 1, status := Scheduled,
                                          run_at := now + 2\<rparr>),
                 heap := heappush (heap st) (now + 2, job_id j),
                 db := db st @ [j\<lparr>retries := retries j + 1, status := Scheduled,
                                  run_at := now + 2\<rparr>]\<rparr>)
       \<and> (\<not> retries j + 1 \<le> 3 \<longrightarrow>
            execute_job now False k st =
              st\<lparr>jobs := (jobs st)(k \<mapsto> j\<lparr>retries := retries j + 1, status := Dead\<rparr>),
                 db := db st @ [j\<lparr>retries := retries j + 1, status := Dead\<rparr>]\<rparr>)"
  using assms by (simp add: execute_job_def persist_job_def Let_def)

lemma execute_job_ok:
  assumes "jobs st k = Some j"
  shows "(\<not> recurring j \<longrightarrow>
            execute_job now True k st =
              st\<lparr>jobs := (jobs st)(k \<mapsto> j\<lparr>status := Done\<rparr>),
                 db := db st @ [j\<lparr>status := Done\<rparr>]\<rparr>)
       \<and> (recurring j \<longrightarrow>
            execute_job now True k st =
              st\<lparr>jobs := (jobs st)(k \<mapsto> j\<lparr>run_at := now + interval j, status := Scheduled\<rparr>),
                 heap := heappush (heap st) (now + interval j, job_id j),
                 db := db st @ [j\<lparr>status := Done\<rparr>,
                                j\<lparr>run_at := now + interval j, status := Scheduled\<rparr>]\<rparr>)"
  using assms by (simp add: execute_job_def persist_job_def Let_def)

lemma create_job_db:
  "\<exists>j. db (snd (create_job now data new_id st)) = db st @ [j] \<and> job_id j = new_id"
  by (simp add: create_job_def persist_job_def Let_def)

lemma delete_job_db:
  "jobs st k' = Some j' \<Longrightarrow> db (snd (delete_job k' st)) = db st @ [j'\<lparr>status := Cancelled\<rparr>]"
  by (simp add: delete_job_def persist_job_def Let_def)

lemma delete_job_db_None: "jobs st k' = None \<Longrightarrow> snd (delete_job k' st) = st"
  by (simp add: delete_job_def)

lemma execute_job_db:
  "jobs st k' = Some j' \<Longrightarrow>
     \<exists>ws. db (execute_job now ok k' st) = db st @ ws \<and> (\<forall>w \<in> set ws. job_id w = job_id j')"
  by (cases ok; cases "recurring j'"; cases "retries j' + 1 \<le> 3")
     (simp_all add: execute_job_def persist_job_def Let_def)

lemma attempts_Cons: "attempts k (e # es) st = attempts k [e] st + attempts k es (apply_event e st)"
  by (cases e) simp_all

lemma always_fails_Cons: "always_fails k (e # es) \<longleftrightarrow> always_fails k [e] \<and> always_fails k es"
  by (cases e) simp_all

lemma no_restart_Cons: "no_restart (e # es) \<longleftrightarrow> no_restart [e] \<and> no_restart es"
  by (cases e) simp_all

lemma untouched_Cons: "untouched k (e # es) \<longleftrightarrow> untouched k [e] \<and> untouched k es"
  by (cases e) simp_all

lemma run_append: "run (es @ es') st = run es' (run es st)"
  by (induction es arbitrary: st) simp_all

lemma fresh_ids_append: "fresh_ids (es @ es') st \<longleftrightarrow> fresh_ids es st \<and> fresh_ids es' (run es st)"
proof (induction es arbitrary: st)
  case Nil
  then show ?case by simp
next
  case (Cons e es)
  then show ?case using fresh_ids_Cons[of e "es @ es'" st] fresh_ids_Cons[of e es st] by auto
qed

section \<open>Scenarios\<close>

lemma started_eq:
  "started = \<lparr>jobs = [''a'' \<mapsto> mk_job ''a'' 0 Scheduled 0], heap = [],
      db = [mk_job ''a'' 0 Scheduled 0], threads = [''a'']\<rparr>"
  by (simp add: started_def op_defs mk_job_def)

lemma started_recurring_eq:
  "started_recurring = \<lparr>jobs = [''a'' \<mapsto> rec_job 0 Scheduled], heap = [],
      db = [rec_job 0 Scheduled], threads = [''a'']\<rparr>"
  by (simp add: started_recurring_def op_defs recurring_req_def rec_job_def)

lemma run_fail1:
  "run fail1 init = \<lparr>jobs = [''a'' \<mapsto> mk_job ''a'' 3 Scheduled 1], heap = [(3, ''a'')],
      db = [mk_job ''a'' 0 Scheduled 0, mk_job ''a'' 3 Scheduled 1], threads = []\<rparr>"
  by (simp add: fail1_def op_defs mk_job_def)

lemma run_fail3:
  "run fail3 init =
     \<lparr>jobs = [''a'' \<mapsto> mk_job ''a'' 9 Scheduled 3], heap = [],
      db = [mk_job ''a'' 0 Scheduled 0, mk_job ''a'' 3 Scheduled 1, mk_job ''a'' 6 Scheduled 2,
            mk_job ''a'' 9 Scheduled 3],
      threads = [''a'']\<rparr>"
  by (simp add: fail3_def op_defs mk_job_def)

lemma run_fail4:
  "run fail4 init =
     \<lparr>jobs = [''a'' \<mapsto> mk_job ''a'' 9 Dead 4], heap = [],
      db = [mk_job ''a'' 0 Scheduled 0, mk_job ''a'' 3 Scheduled 1, mk_job ''a'' 6 Scheduled 2,
            mk_job ''a'' 9 Scheduled 3, mk_job ''a'' 9 Dead 4],
      threads = []\<rparr>"
  by (simp add: fail4_def op_defs mk_job_def)

section \<open>The retry bound\<close>

lemma fail_inv_None: "jobs st k = None \<Longrightarrow> fail_inv k n st = (n = 0)"
  by (simp add: fail_inv_def)

lemma fail_inv_Some:
  "jobs st k = Some j \<Longrightarrow> fail_inv k n st =
     (retries j = int n
      \<and> (n \<le> 3 \<longrightarrow> pending k st = 1 \<and> (status j = Scheduled \<or> status j = Cancelled))
      \<and> (3 < n \<longrightarrow> n = 4 \<and> pending k st = 0 \<and> (status j = Dead \<or> status j = Cancelled)))"
  by (simp add: fail_inv_def)

lemma fail_inv_init: "fail_inv k 0 init"
  by (simp add: fail_inv_def init_def)

lemma fail_inv_create:
  assumes "queue_inv st" "jobs st new_id = None" "fail_inv k n st"
  shows "fail_inv k n (snd (create_job now data new_id st))"
proof (cases "new_id = k")
  case True
  with assms(2,3) have n: "n = 0" by (simp add: fail_inv_None)
  from True queue_invD[OF assms(1), of k] assms(2) have p: "pending k st = 0"
    by (simp add: key_ok_def)
  obtain j where j: "jobs (snd (create_job now data k st)) k = Some j"
    and r: "retries j = 0" and s: "status j = Scheduled"
    by (simp add: create_job_def persist_job_def Let_def)
  from n p r s have "fail_inv k n (snd (create_job now data k st))"
    by (simp add: fail_inv_Some[OF j] create_job_pending)
  with True show ?thesis by simp
next
  case False
  then have ne: "k \<noteq> new_id" by simp
  show ?thesis
  proof (cases "jobs st k")
    case None
    with assms(3) show ?thesis
      by (simp add: fail_inv_None create_job_jobs_other[OF ne])
  next
    case (Some j)
    then have "jobs (snd (create_job now data new_id st)) k = Some j"
      by (simp add: create_job_jobs_other[OF ne])
    from fail_inv_Some[OF this] fail_inv_Some[OF Some] assms(3) False show ?thesis
      by (simp add: create_job_pending)
  qed
qed

lemma fail_inv_delete:
  assumes "fail_inv k n st"
  shows "fail_inv k n (snd (delete_job k' st))"
proof (cases "jobs st k")
  case None
  then have "jobs (snd (delete_job k' st)) k = None" by (auto simp: delete_job_jobs)
  with None assms show ?thesis by (simp add: fail_inv_None)
next
  case (Some j)
  show ?thesis
  proof (cases "k = k'")
    case True
    with Some have "jobs (snd (delete_job k' st)) k = Some (j\<lparr>status := Cancelled\<rparr>)"
      by (simp add: delete_job_jobs)
    from fail_inv_Some[OF this] fail_inv_Some[OF Some] assms show ?thesis
      by (simp add: delete_job_pending)
  next
    case False
    with Some have "jobs (snd (delete_job k' st)) k = Some j"
      by (simp add: delete_job_jobs)
    from fail_inv_Some[OF this] fail_inv_Some[OF Some] assms show ?thesis
      by (simp add: delete_job_pending)
  qed
qed

lemma fail_inv_tick:
  assumes "queue_inv st" "fail_inv k n st"
  shows "fail_inv k n (snd (scheduler_iter now st))"
proof (cases "jobs st k")
  case None
  then have "jobs (snd (scheduler_iter now st)) k = None" by (simp add: scheduler_iter_jobs)
  with None assms(2) show ?thesis by (simp add: fail_inv_None)
next
  case (Some j)
  then have "jobs (snd (scheduler_iter now st)) k = Some j" by (simp add: scheduler_iter_jobs)
  from fail_inv_Some[OF this] fail_inv_Some[OF Some] assms(2) show ?thesis
    by (simp add: scheduler_iter_pending[OF assms(1)])
qed

lemma fail_inv_finish_self:
  assumes "queue_inv st" "k \<in> set (threads st)" "fail_inv k n st"
  shows "fail_inv k (Suc n) (execute_job now False k (st\<lparr>threads := remove1 k (threads st)\<rparr>))"
proof -
  let ?sb = "st\<lparr>threads := remove1 k (threads st)\<rparr>"
  from count_list_pos[OF assms(2)] have pos: "0 < count_list (threads st) k" .
  then have "pending k st \<noteq> 0" by (simp add: pending_def)
  with queue_invD[OF assms(1), of k] obtain j where j: "jobs st k = Some j"
    and jid: "job_id j = k" and one: "pending k st = 1"
    by (auto simp: key_ok_def split: option.splits)
  from assms(3) one have n: "n \<le> 3" and r: "retries j = int n"
    by (auto simp: fail_inv_Some[OF j])
  from one assms(2) have p1: "pending k ?sb = 0" by (simp add: pending_threads_remove1)
  show ?thesis
  proof (cases "n \<le> 2")
    case True
    with r j jid have j': "jobs (execute_job now False k ?sb) k
        = Some (j\<lparr>retries := retries j + 1, status := Scheduled, run_at := now + 2\<rparr>)"
      and p': "pending k (execute_job now False k ?sb) = pending k ?sb + 1"
      by (simp_all add: execute_job_def persist_job_def Let_def pending_def entries_push)
    from True r p1 show ?thesis by (simp add: fail_inv_Some[OF j'] p')
  next
    case False
    with n have n3: "n = 3" by simp
    with r j jid have j': "jobs (execute_job now False k ?sb) k
        = Some (j\<lparr>retries := retries j + 1, status := Dead\<rparr>)"
      and p': "pending k (execute_job now False k ?sb) = pending k ?sb"
      by (simp_all add: execute_job_def persist_job_def Let_def pending_def)
    from n3 r p1 show ?thesis by (simp add: fail_inv_Some[OF j'] p')
  qed
qed

lemma fail_inv_finish_other:
  assumes "queue_inv st" "k' \<in> set (threads st)" "k' \<noteq> k" "fail_inv k n st"
  shows "fail_inv k n (execute_job now ok k' (st\<lparr>threads := remove1 k' (threads st)\<rparr>))"
proof -
  let ?sb = "st\<lparr>threads := remove1 k' (threads st)\<rparr>"
  from count_list_pos[OF assms(2)] have "pending k' st \<noteq> 0" by (simp add: pending_def)
  with queue_invD[OF assms(1), of k'] obtain j' where j': "jobs st k' = Some j'"
    and jid: "job_id j' = k'"
    by (auto simp: key_ok_def split: option.splits)
  from assms(3) have ne: "k \<noteq> k'" by simp
  from j' have j1: "jobs ?sb k' = Some j'" by simp
  have p: "pending k (execute_job now ok k' ?sb) = pending k st"
    using assms(3) by (simp add: execute_job_pending_other[OF j1 jid ne] pending_threads_remove1)
  have jj: "jobs (execute_job now ok k' ?sb) k = jobs st k"
    by (simp add: execute_job_jobs_other[OF ne])
  show ?thesis
  proof (cases "jobs st k")
    case None
    with jj assms(4) show ?thesis by (simp add: fail_inv_None)
  next
    case (Some j)
    with jj have "jobs (execute_job now ok k' ?sb) k = Some j" by simp
    from fail_inv_Some[OF this] fail_inv_Some[OF Some] assms(4) show ?thesis
      by (simp add: p)
  qed
qed

lemma fail_inv_event:
  assumes "queue_inv st" "fresh_ids [e] st" "no_restart [e]" "always_fails k [e]"
    "fail_inv k n st"
  shows "fail_inv k (n + attempts k [e] st) (apply_event e st)"
proof (cases e)
  case (Create now data new_id)
  with assms show ?thesis by (simp add: fail_inv_create)
next
  case (Cancel k')
  with assms show ?thesis by (simp add: fail_inv_delete)
next
  case (Tick now)
  with assms show ?thesis by (simp add: fail_inv_tick)
next
  case (Finish now ok k')
  show ?thesis
  proof (cases "k' \<in> set (threads st)")
    case False
    then have "\<not> (k' = k \<and> k \<in> set (threads st))" by auto
    with False Finish assms(5) show ?thesis by auto
  next
    case True
    show ?thesis
    proof (cases "k' = k")
      case same: True
      with Finish assms(4) have "\<not> ok" by simp
      with same True Finish fail_inv_finish_self[OF assms(1) _ assms(5), of now] show ?thesis
        by simp
    next
      case False
      with True Finish fail_inv_finish_other[OF assms(1) True False assms(5), of now ok]
      show ?thesis by simp
    qed
  qed
next
  case Restart
  with assms(3) show ?thesis by simp
qed

lemma fail_inv_run:
  "queue_inv st \<Longrightarrow> fresh_ids es st \<Longrightarrow> no_restart es \<Longrightarrow> always_fails k es \<Longrightarrow>
     fail_inv k n st \<Longrightarrow> fail_inv k (n + attempts k es st) (run es st)"
proof (induction es arbitrary: st n)
  case Nil
  then show ?case by simp
next
  case (Cons e es)
  from Cons.prems(2) have f1: "fresh_ids [e] st" and f2: "fresh_ids es (apply_event e st)"
    using fresh_ids_Cons[of e es st] by blast+
  from Cons.prems(3) have r1: "no_restart [e]" and r2: "no_restart es"
    using no_restart_Cons[of e es] by blast+
  from Cons.prems(4) have a1: "always_fails k [e]" and a2: "always_fails k es"
    using always_fails_Cons[of k e es] by blast+
  have q: "queue_inv (apply_event e st)" by (rule queue_inv_event[OF Cons.prems(1) f1])
  have i: "fail_inv k (n + attempts k [e] st) (apply_event e st)"
    by (rule fail_inv_event[OF Cons.prems(1) f1 r1 a1 Cons.prems(5)])
  from Cons.IH[OF q f2 r2 a2 i] show ?case
    by (simp add: attempts_Cons[of k e es st] add.assoc)
qed

text \<open>
  Claim C4, as the code has it. A run of \<open>execute_job\<close> whose work fails adds 1 to
  \<open>retries\<close>; while the new count is at most 3 the job is set to scheduled with
  \<open>run_at = now + 2\<close>, pushed on the heap and persisted, otherwise it is set to dead
  and persisted, and nothing is pushed. In a run of the system without restart, for a
  job whose work fails every time, \<open>retries\<close> is the number of attempts made, there
  are never more than 4 attempts, through the third failure the job is pending once
  (scheduled, unless a cancel request changed the status), and after the fourth it is
  dead (or cancelled) and nothing is pending for it any more: it is never pushed or
  handed to the executor again.
\<close>

theorem C4_retry_bound:
  "(\<forall>j. jobs st k = Some j \<longrightarrow>
      (retries j + 1 \<le> 3 \<longrightarrow>
         execute_job now False k st =
           st\<lparr>jobs := (jobs st)(k \<mapsto> j\<lparr>retries := retries j + 1, status := Scheduled,
                                       run_at := now + 2\<rparr>),
              heap := heappush (heap st) (now + 2, job_id j),
              db := db st @ [j\<lparr>retries := retries j + 1, status := Scheduled,
                               run_at := now + 2\<rparr>]\<rparr>)
      \<and> (\<not> retries j + 1 \<le> 3 \<longrightarrow>
         execute_job now False k st =
           st\<lparr>jobs := (jobs st)(k \<mapsto> j\<lparr>retries := retries j + 1, status := Dead\<rparr>),
              db := db st @ [j\<lparr>retries := retries j + 1, status := Dead\<rparr>]\<rparr>))
   \<and> (\<forall>j. fresh_ids es init \<and> no_restart es \<and> always_fails k es
         \<and> jobs (run es init) k = Some j \<longrightarrow>
       retries j = int (attempts k es init) \<and> attempts k es init \<le> 4
       \<and> (attempts k es init \<le> 3 \<longrightarrow>
            pending k (run es init) = 1 \<and> (status j = Scheduled \<or> status j = Cancelled))
       \<and> (attempts k es init = 4 \<longrightarrow>
            pending k (run es init) = 0 \<and> (status j = Dead \<or> status j = Cancelled)))"
proof (intro conjI allI impI)
  fix j assume "jobs st k = Some j" "retries j + 1 \<le> 3"
  with execute_job_fail[of st k j now]
  show "execute_job now False k st =
           st\<lparr>jobs := (jobs st)(k \<mapsto> j\<lparr>retries := retries j + 1, status := Scheduled,
                                       run_at := now + 2\<rparr>),
              heap := heappush (heap st) (now + 2, job_id j),
              db := db st @ [j\<lparr>retries := retries j + 1, status := Scheduled,
                               run_at := now + 2\<rparr>]\<rparr>" by simp
next
  fix j assume "jobs st k = Some j" "\<not> retries j + 1 \<le> 3"
  with execute_job_fail[of st k j now]
  show "execute_job now False k st =
           st\<lparr>jobs := (jobs st)(k \<mapsto> j\<lparr>retries := retries j + 1, status := Dead\<rparr>),
              db := db st @ [j\<lparr>retries := retries j + 1, status := Dead\<rparr>]\<rparr>" by simp
next
  fix j
  assume a: "fresh_ids es init \<and> no_restart es \<and> always_fails k es
         \<and> jobs (run es init) k = Some j"
  then have "fail_inv k (0 + attempts k es init) (run es init)"
    by (intro fail_inv_run queue_inv_init fail_inv_init) simp_all
  with a have f: "retries j = int (attempts k es init)
      \<and> (attempts k es init \<le> 3 \<longrightarrow>
           pending k (run es init) = 1 \<and> (status j = Scheduled \<or> status j = Cancelled))
      \<and> (3 < attempts k es init \<longrightarrow> attempts k es init = 4
           \<and> pending k (run es init) = 0 \<and> (status j = Dead \<or> status j = Cancelled))"
    by (simp add: fail_inv_Some)
  from f show "retries j = int (attempts k es init)" by simp
  from f show "attempts k es init \<le> 4" by (cases "attempts k es init \<le> 3") auto
  { assume "attempts k es init \<le> 3"
    with f show "pending k (run es init) = 1" by simp
    from f \<open>attempts k es init \<le> 3\<close> show "status j = Scheduled \<or> status j = Cancelled" by simp }
  { assume "attempts k es init = 4"
    with f show "pending k (run es init) = 0" by simp
    from f \<open>attempts k es init = 4\<close> show "status j = Dead \<or> status j = Cancelled" by simp }
qed

theorem C4_retry_bound_witness:
  "jobs started ''a'' = Some (mk_job ''a'' 0 Scheduled 0)
   \<and> retries (mk_job ''a'' 0 Scheduled 0) + 1 \<le> 3
   \<and> jobs (execute_job 1 False ''a'' started) ''a'' = Some (mk_job ''a'' 3 Scheduled 1)
   \<and> heap (execute_job 1 False ''a'' started) = [(3, ''a'')]
   \<and> jobs (run fail3 init) ''a'' = Some (mk_job ''a'' 9 Scheduled 3)
   \<and> \<not> retries (mk_job ''a'' 9 Scheduled 3) + 1 \<le> 3
   \<and> jobs (execute_job 10 False ''a'' (run fail3 init)) ''a'' = Some (mk_job ''a'' 9 Dead 4)
   \<and> heap (execute_job 10 False ''a'' (run fail3 init)) = []
   \<and> fresh_ids fail4 init \<and> no_restart fail4 \<and> always_fails ''a'' fail4
   \<and> jobs (run fail4 init) ''a'' = Some (mk_job ''a'' 9 Dead 4)
   \<and> attempts ''a'' fail4 init = 4
   \<and> pending ''a'' (run fail4 init) = 0
   \<and> fresh_ids fail1 init \<and> no_restart fail1 \<and> always_fails ''a'' fail1
   \<and> jobs (run fail1 init) ''a'' = Some (mk_job ''a'' 3 Scheduled 1)
   \<and> attempts ''a'' fail1 init \<le> 3
   \<and> pending ''a'' (run fail1 init) = 1"
proof -
  note A = C4_retry_bound [where st = started and k = "''a''" and now = 1 and es = fail4]
  note B = C4_retry_bound [where st = "run fail3 init" and k = "''a''" and now = 10 and es = fail1]
  have h1: "jobs started ''a'' = Some (mk_job ''a'' 0 Scheduled 0)"
    by (simp add: started_eq)
  have h2: "retries (mk_job ''a'' 0 Scheduled 0) + 1 \<le> 3" by (simp add: mk_job_def)
  from A h1 h2 have "execute_job 1 False ''a'' started =
      started\<lparr>jobs := (jobs started)(''a'' \<mapsto> (mk_job ''a'' 0 Scheduled 0)
                 \<lparr>retries := retries (mk_job ''a'' 0 Scheduled 0) + 1, status := Scheduled,
                   run_at := 1 + 2\<rparr>),
              heap := heappush (heap started) (1 + 2, job_id (mk_job ''a'' 0 Scheduled 0)),
              db := db started @ [(mk_job ''a'' 0 Scheduled 0)
                 \<lparr>retries := retries (mk_job ''a'' 0 Scheduled 0) + 1, status := Scheduled,
                   run_at := 1 + 2\<rparr>]\<rparr>"
    by blast
  then have c1: "jobs (execute_job 1 False ''a'' started) ''a'' = Some (mk_job ''a'' 3 Scheduled 1)"
    and c2: "heap (execute_job 1 False ''a'' started) = [(3, ''a'')]"
    by (simp_all add: started_eq mk_job_def heappush_def)
  have h3: "jobs (run fail3 init) ''a'' = Some (mk_job ''a'' 9 Scheduled 3)"
    by (simp add: run_fail3)
  have h4: "\<not> retries (mk_job ''a'' 9 Scheduled 3) + 1 \<le> 3" by (simp add: mk_job_def)
  from B h3 h4 have "execute_job 10 False ''a'' (run fail3 init) =
      (run fail3 init)\<lparr>jobs := (jobs (run fail3 init))(''a'' \<mapsto> (mk_job ''a'' 9 Scheduled 3)
                 \<lparr>retries := retries (mk_job ''a'' 9 Scheduled 3) + 1, status := Dead\<rparr>),
              db := db (run fail3 init) @ [(mk_job ''a'' 9 Scheduled 3)
                 \<lparr>retries := retries (mk_job ''a'' 9 Scheduled 3) + 1, status := Dead\<rparr>]\<rparr>"
    by blast
  then have c3: "jobs (execute_job 10 False ''a'' (run fail3 init)) ''a'' = Some (mk_job ''a'' 9 Dead 4)"
    and c4: "heap (execute_job 10 False ''a'' (run fail3 init)) = []"
    by (simp_all add: run_fail3 mk_job_def)
  have h5: "fresh_ids fail4 init \<and> no_restart fail4 \<and> always_fails ''a'' fail4"
    by (simp add: fail4_def op_defs)
  have h6: "jobs (run fail4 init) ''a'' = Some (mk_job ''a'' 9 Dead 4)"
    by (simp add: run_fail4)
  have h7: "attempts ''a'' fail4 init = 4" by (simp add: fail4_def op_defs)
  from A h5 h6 h7 have c5: "pending ''a'' (run fail4 init) = 0" by blast
  have h8: "fresh_ids fail1 init \<and> no_restart fail1 \<and> always_fails ''a'' fail1"
    by (simp add: fail1_def op_defs)
  have h9: "jobs (run fail1 init) ''a'' = Some (mk_job ''a'' 3 Scheduled 1)"
    by (simp add: run_fail1)
  have h10: "attempts ''a'' fail1 init \<le> 3" by (simp add: fail1_def op_defs)
  from B h8 h9 h10 have c6: "pending ''a'' (run fail1 init) = 1" by blast
  from h1 h2 c1 c2 h3 h4 c3 c4 h5 h6 h7 c5 h8 h9 h10 c6 show ?thesis by blast
qed

text \<open>
  The claim as stated fails across a restart: the dead job has no entry on the heap,
  but \<open>load_jobs_at_start\<close> selects every row that is not done, so after a restart the
  dead job has an entry again and the next scheduler iteration hands it to the executor.
\<close>

theorem C4_dead_job_reloaded:
  "map_option status (jobs (run fail4 init) ''a'') = Some Dead
   \<and> entries ''a'' (heap (run fail4 init)) = 0
   \<and> entries ''a'' (heap (run (fail4 @ [Restart]) init)) = 1
   \<and> fst (scheduler_iter 20 (run (fail4 @ [Restart]) init)) = Some ''a''"
  by (simp add: fail4_def op_defs entries_def boot_defs)

section \<open>Retries of a dead job\<close>

lemma retry_ok_None: "jobs st k = None \<Longrightarrow> retry_ok k st"
  by (simp add: retry_ok_def)

lemma retry_ok_Some:
  "jobs st k = Some j \<Longrightarrow> retry_ok k st =
     (retries j \<le> 4 \<and> (0 < pending k st \<longrightarrow> retries j \<le> 3)
      \<and> (status j = Dead \<longrightarrow> retries j = 4))"
  by (simp add: retry_ok_def)

lemma retry_invD: "retry_inv st \<Longrightarrow> retry_ok k st"
  by (simp add: retry_inv_def)

lemma retry_inv_init: "retry_inv init"
  by (simp add: retry_inv_def retry_ok_def init_def)

lemma retry_ok_create:
  assumes "retry_ok k st"
  shows "retry_ok k (snd (create_job now data new_id st))"
proof (cases "k = new_id")
  case True
  obtain j where j: "jobs (snd (create_job now data new_id st)) new_id = Some j"
    and r: "retries j = 0" and s: "status j = Scheduled"
    by (simp add: create_job_def persist_job_def Let_def)
  from True r s show ?thesis by (simp add: retry_ok_Some[OF j])
next
  case False
  show ?thesis
  proof (cases "jobs st k")
    case None
    with False show ?thesis by (simp add: retry_ok_None create_job_jobs_other)
  next
    case (Some j)
    with False have "jobs (snd (create_job now data new_id st)) k = Some j"
      by (simp add: create_job_jobs_other)
    from retry_ok_Some[OF this] retry_ok_Some[OF Some] assms False show ?thesis
      by (simp add: create_job_pending)
  qed
qed

lemma retry_ok_delete:
  assumes "retry_ok k st"
  shows "retry_ok k (snd (delete_job k' st))"
proof (cases "jobs st k")
  case None
  then have "jobs (snd (delete_job k' st)) k = None" by (auto simp: delete_job_jobs)
  then show ?thesis by (rule retry_ok_None)
next
  case (Some j)
  show ?thesis
  proof (cases "k = k'")
    case True
    with Some have "jobs (snd (delete_job k' st)) k = Some (j\<lparr>status := Cancelled\<rparr>)"
      by (simp add: delete_job_jobs)
    from retry_ok_Some[OF this] retry_ok_Some[OF Some] assms show ?thesis
      by (simp add: delete_job_pending)
  next
    case False
    with Some have "jobs (snd (delete_job k' st)) k = Some j"
      by (simp add: delete_job_jobs)
    from retry_ok_Some[OF this] retry_ok_Some[OF Some] assms show ?thesis
      by (simp add: delete_job_pending)
  qed
qed

lemma retry_ok_tick:
  assumes "queue_inv st" "retry_ok k st"
  shows "retry_ok k (snd (scheduler_iter now st))"
proof (cases "jobs st k")
  case None
  then have "jobs (snd (scheduler_iter now st)) k = None" by (simp add: scheduler_iter_jobs)
  then show ?thesis by (rule retry_ok_None)
next
  case (Some j)
  then have "jobs (snd (scheduler_iter now st)) k = Some j" by (simp add: scheduler_iter_jobs)
  from retry_ok_Some[OF this] retry_ok_Some[OF Some] assms(2) show ?thesis
    by (simp add: scheduler_iter_pending[OF assms(1)])
qed

lemma retry_ok_finish_self:
  assumes "queue_inv st" "k \<in> set (threads st)" "retry_ok k st"
  shows "retry_ok k (execute_job now ok k (st\<lparr>threads := remove1 k (threads st)\<rparr>))"
proof -
  let ?sa = "st\<lparr>threads := remove1 k (threads st)\<rparr>"
  from count_list_pos[OF assms(2)] have pos: "0 < count_list (threads st) k" .
  then have "pending k st \<noteq> 0" by (simp add: pending_def)
  with queue_invD[OF assms(1), of k] obtain j where j: "jobs st k = Some j"
    and jid: "job_id j = k" and one: "pending k st = 1"
    by (auto simp: key_ok_def split: option.splits)
  from assms(3) one have r: "retries j \<le> 3" by (simp add: retry_ok_Some[OF j])
  from one assms(2) have p: "pending k ?sa = 0" by (simp add: pending_threads_remove1)
  from j have ja: "jobs ?sa k = Some j" by simp
  show ?thesis
  proof (cases ok)
    case True
    from execute_job_ok[OF ja, of now] True obtain j' where
      j': "jobs (execute_job now ok k ?sa) k = Some j'" and r': "retries j' = retries j"
      and s': "status j' \<noteq> Dead"
      by (cases "recurring j") auto
    from r r' s' show ?thesis by (simp add: retry_ok_Some[OF j'])
  next
    case False
    show ?thesis
    proof (cases "retries j + 1 \<le> 3")
      case True
      with execute_job_fail[OF ja, of now] False obtain j' where
        j': "jobs (execute_job now ok k ?sa) k = Some j'" and r': "retries j' = retries j + 1"
        and s': "status j' \<noteq> Dead"
        by auto
      from True r' s' show ?thesis by (simp add: retry_ok_Some[OF j'])
    next
      case big: False
      with execute_job_fail[OF ja, of now] False
      have e: "execute_job now ok k ?sa =
          ?sa\<lparr>jobs := (jobs ?sa)(k \<mapsto> j\<lparr>retries := retries j + 1, status := Dead\<rparr>),
              db := db ?sa @ [j\<lparr>retries := retries j + 1, status := Dead\<rparr>]\<rparr>"
        by simp
      then have j': "jobs (execute_job now ok k ?sa) k
          = Some (j\<lparr>retries := retries j + 1, status := Dead\<rparr>)"
        by simp
      from e have "pending k (execute_job now ok k ?sa) = pending k ?sa"
        by (simp add: pending_def)
      with p have p': "pending k (execute_job now ok k ?sa) = 0" by simp
      from big r have "retries j + 1 = 4" by simp
      with p' show ?thesis by (simp add: retry_ok_Some[OF j'])
    qed
  qed
qed

lemma retry_ok_finish_other:
  assumes "queue_inv st" "k' \<in> set (threads st)" "k' \<noteq> k" "retry_ok k st"
  shows "retry_ok k (execute_job now ok k' (st\<lparr>threads := remove1 k' (threads st)\<rparr>))"
proof -
  let ?sa = "st\<lparr>threads := remove1 k' (threads st)\<rparr>"
  from count_list_pos[OF assms(2)] have "pending k' st \<noteq> 0" by (simp add: pending_def)
  with queue_invD[OF assms(1), of k'] obtain j' where j': "jobs st k' = Some j'"
    and jid: "job_id j' = k'"
    by (auto simp: key_ok_def split: option.splits)
  from assms(3) have ne: "k \<noteq> k'" by simp
  from j' have ja: "jobs ?sa k' = Some j'" by simp
  have p: "pending k (execute_job now ok k' ?sa) = pending k st"
    using assms(3) by (simp add: execute_job_pending_other[OF ja jid ne] pending_threads_remove1)
  have jj: "jobs (execute_job now ok k' ?sa) k = jobs st k"
    by (simp add: execute_job_jobs_other[OF ne])
  show ?thesis
  proof (cases "jobs st k")
    case None
    with jj show ?thesis by (simp add: retry_ok_None)
  next
    case (Some j)
    with jj have "jobs (execute_job now ok k' ?sa) k = Some j" by simp
    from retry_ok_Some[OF this] retry_ok_Some[OF Some] assms(4) show ?thesis
      by (simp add: p)
  qed
qed

lemma retry_inv_event:
  assumes "queue_inv st" "no_restart [e]" "retry_inv st"
  shows "retry_inv (apply_event e st)"
  unfolding retry_inv_def
proof
  fix k
  note ok = retry_invD[OF assms(3), of k]
  show "retry_ok k (apply_event e st)"
  proof (cases e)
    case (Create now data new_id)
    with ok show ?thesis by (simp add: retry_ok_create)
  next
    case (Cancel k')
    with ok show ?thesis by (simp add: retry_ok_delete)
  next
    case (Tick now)
    with ok assms(1) show ?thesis by (simp add: retry_ok_tick)
  next
    case (Finish now b k')
    show ?thesis
    proof (cases "k' \<in> set (threads st)")
      case False
      with Finish ok show ?thesis by simp
    next
      case True
      show ?thesis
      proof (cases "k' = k")
        case same: True
        with True Finish retry_ok_finish_self[OF assms(1) _ ok, of now b] show ?thesis
          by simp
      next
        case False
        with True Finish retry_ok_finish_other[OF assms(1) True False ok, of now b]
        show ?thesis by simp
      qed
    qed
  next
    case Restart
    with assms(2) show ?thesis by simp
  qed
qed

lemma retry_inv_run:
  "queue_inv st \<Longrightarrow> fresh_ids es st \<Longrightarrow> no_restart es \<Longrightarrow> retry_inv st \<Longrightarrow>
     retry_inv (run es st)"
proof (induction es arbitrary: st)
  case Nil
  then show ?case by simp
next
  case (Cons e es)
  from Cons.prems(2) have f1: "fresh_ids [e] st" and f2: "fresh_ids es (apply_event e st)"
    using fresh_ids_Cons[of e es st] by blast+
  from Cons.prems(3) have r1: "no_restart [e]" and r2: "no_restart es"
    using no_restart_Cons[of e es] by blast+
  have q: "queue_inv (apply_event e st)" by (rule queue_inv_event[OF Cons.prems(1) f1])
  have i: "retry_inv (apply_event e st)"
    by (rule retry_inv_event[OF Cons.prems(1) r1 Cons.prems(4)])
  from Cons.IH[OF q f2 r2 i] show ?case by simp
qed

text \<open>
  Claim C5, as the code has it. The executor marks a job dead when the incremented
  \<open>retries\<close> is greater than 3, so a dead job has one retry more than the maximum,
  not at most the maximum. In a process run without restart, no job ever has more than
  4 retries and a dead job has exactly 4. Across restarts, which load dead jobs again
  and retry them, a dead job still has more than 3 retries.
\<close>

theorem C5_dead_retries_exceed_max:
  assumes "jobs (run es init) k = Some j"
  shows "(status j = Dead \<longrightarrow> 3 < retries j)
    \<and> (fresh_ids es init \<and> no_restart es \<longrightarrow>
         retries j \<le> 4 \<and> (status j = Dead \<longrightarrow> retries j = 4))"
proof (intro conjI impI)
  assume "status j = Dead"
  with dead_inv_run[OF dead_inv_init, of es] assms show "3 < retries j"
    by (auto simp: dead_inv_def dead_ok_def)
next
  assume a: "fresh_ids es init \<and> no_restart es"
  then have "retry_inv (run es init)"
    by (intro retry_inv_run queue_inv_init retry_inv_init) simp_all
  from retry_invD[OF this, of k] assms
  have r: "retries j \<le> 4 \<and> (status j = Dead \<longrightarrow> retries j = 4)"
    by (simp add: retry_ok_Some)
  from r show "retries j \<le> 4" by simp
  assume "status j = Dead"
  with r show "retries j = 4" by simp
qed

theorem C5_dead_retries_exceed_max_witness:
  "jobs (run fail4 init) ''a'' = Some (mk_job ''a'' 9 Dead 4)
   \<and> status (mk_job ''a'' 9 Dead 4) = Dead
   \<and> fresh_ids fail4 init \<and> no_restart fail4
   \<and> 3 < retries (mk_job ''a'' 9 Dead 4)
   \<and> retries (mk_job ''a'' 9 Dead 4) \<le> 4
   \<and> retries (mk_job ''a'' 9 Dead 4) = 4"
proof -
  note A = C5_dead_retries_exceed_max [where es = fail4 and k = "''a''"
      and j = "mk_job ''a'' 9 Dead 4"]
  have h1: "jobs (run fail4 init) ''a'' = Some (mk_job ''a'' 9 Dead 4)"
    by (simp add: run_fail4)
  have h2: "status (mk_job ''a'' 9 Dead 4) = Dead" by (simp add: mk_job_def)
  have h3: "fresh_ids fail4 init \<and> no_restart fail4" by (simp add: fail4_def op_defs)
  from A[OF h1] h2 h3 have "3 < retries (mk_job ''a'' 9 Dead 4)"
    and "retries (mk_job ''a'' 9 Dead 4) \<le> 4" and "retries (mk_job ''a'' 9 Dead 4) = 4"
    by blast+
  with h1 h2 h3 show ?thesis by blast
qed

text \<open>
  The claim as stated fails for the job that failed four times: it is dead with 4
  retries, which is more than the maximum of 3.
\<close>

theorem C5_dead_with_four_retries:
  "map_option status (jobs (run fail4 init) ''a'') = Some Dead
   \<and> map_option retries (jobs (run fail4 init) ''a'') = Some 4
   \<and> \<not> retries (the (jobs (run fail4 init) ''a'')) \<le> 3"
  by (simp add: fail4_def op_defs)

section \<open>The success path\<close>

lemma find_append:
  "find P (xs @ ys) = (case find P xs of None \<Rightarrow> find P ys | Some x \<Rightarrow> Some x)"
  by (induction xs) auto

lemma find_filter_none: "(\<And>x. P x \<Longrightarrow> \<not> Q x) \<Longrightarrow> find P (filter Q xs) = None"
  by (induction xs) auto

lemma find_filter_same: "(\<And>x. P x \<Longrightarrow> Q x) \<Longrightarrow> find P (filter Q xs) = find P xs"
  by (induction xs) auto

lemma db_row_snoc: "db_row k (ws @ [w]) = (if job_id w = k then Some w else db_row k ws)"
proof (cases "job_id w = k")
  case True
  then have "find (\<lambda>r. job_id r = k) (filter (\<lambda>r. job_id r \<noteq> job_id w) (db_rows ws)) = None"
    by (intro find_filter_none) simp
  with True show ?thesis
    by (simp add: db_row_def db_rows_snoc replace_row_def find_append)
next
  case False
  then have "find (\<lambda>r. job_id r = k) (filter (\<lambda>r. job_id r \<noteq> job_id w) (db_rows ws))
      = find (\<lambda>r. job_id r = k) (db_rows ws)"
    by (intro find_filter_same) auto
  with False show ?thesis
    by (simp add: db_row_def db_rows_snoc replace_row_def find_append split: option.splits)
qed

lemma db_row_append_other:
  "(\<And>w. w \<in> set ws' \<Longrightarrow> job_id w \<noteq> k) \<Longrightarrow> db_row k (ws @ ws') = db_row k ws"
proof (induction ws' rule: rev_induct)
  case Nil
  then show ?case by simp
next
  case (snoc x xs)
  then have "db_row k ((ws @ xs) @ [x]) = db_row k (ws @ xs)"
    by (simp only: db_row_snoc) simp
  with snoc show ?case by simp
qed

lemma db_row_mem: "db_row k ws = Some r \<Longrightarrow> r \<in> set (db_rows ws) \<and> job_id r = k"
  unfolding db_row_def by (auto simp: find_Some_iff)

lemma db_row_done_not_active:
  assumes "db_row k ws = Some jd" "status jd = Done"
  shows "k \<notin> job_id ` set (active_rows ws)"
proof
  assume "k \<in> job_id ` set (active_rows ws)"
  then obtain r where r: "r \<in> set (db_rows ws)" "status r \<noteq> Done" "job_id r = k"
    by (auto simp: active_rows_def)
  from db_row_mem[OF assms(1)] have jd: "jd \<in> set (db_rows ws)" "job_id jd = k" by simp_all
  from db_rows_distinct[of ws] have "inj_on job_id (set (db_rows ws))"
    by (simp add: distinct_map)
  with r jd have "r = jd" by (auto dest: inj_onD)
  with r(2) assms(2) show False by simp
qed

lemma done_inv_event:
  assumes q: "queue_inv st" and u: "untouched k [e]" and d: "status jd = Done"
    and i: "done_inv k jd st"
  shows "done_inv k jd (apply_event e st)"
    and "no_restart [e] \<Longrightarrow> jobs (apply_event e st) k = jobs st k"
proof -
  from i have p: "pending k st = 0" and jk: "jobs st k = None \<or> jobs st k = Some jd"
    and row: "db_row k (db st) = Some jd" by (simp_all add: done_inv_def)
  have "done_inv k jd (apply_event e st)
      \<and> (no_restart [e] \<longrightarrow> jobs (apply_event e st) k = jobs st k)"
  proof (cases e)
    case (Create now data new_id)
    with u have ne: "k \<noteq> new_id" by auto
    from create_job_db[of now data new_id st] obtain j where
      j: "db (snd (create_job now data new_id st)) = db st @ [j]" "job_id j = new_id" by blast
    with ne row have "db_row k (db (snd (create_job now data new_id st))) = Some jd"
      by (auto simp: db_row_snoc)
    with Create ne p jk show ?thesis
      by (simp add: done_inv_def create_job_pending create_job_jobs_other)
  next
    case (Cancel k')
    with u have ne: "k \<noteq> k'" by auto
    have "db_row k (db (snd (delete_job k' st))) = Some jd"
    proof (cases "jobs st k'")
      case None
      with row show ?thesis by (simp add: delete_job_db_None)
    next
      case (Some j')
      from queue_invD[OF q, of k'] Some have "job_id j' = k'" by (simp add: key_ok_def)
      with ne row show ?thesis by (auto simp: delete_job_db[OF Some] db_row_snoc)
    qed
    with Cancel ne p jk show ?thesis
      by (simp add: done_inv_def delete_job_pending delete_job_jobs)
  next
    case (Tick now)
    with p jk row show ?thesis
      by (simp add: done_inv_def scheduler_iter_pending[OF q] scheduler_iter_jobs scheduler_iter_db)
  next
    case (Finish now ok k')
    show ?thesis
    proof (cases "k' \<in> set (threads st)")
      case False
      with Finish i show ?thesis by simp
    next
      case True
      let ?sb = "st\<lparr>threads := remove1 k' (threads st)\<rparr>"
      from p have "count_list (threads st) k = 0" by (simp add: pending_def)
      with count_list_pos[of k "threads st"] have "k \<notin> set (threads st)" by auto
      with True have ne: "k \<noteq> k'" by auto
      from count_list_pos[OF True] have "pending k' st \<noteq> 0" by (simp add: pending_def)
      with queue_invD[OF q, of k'] obtain j' where j': "jobs st k' = Some j'"
        and jid: "job_id j' = k'"
        by (auto simp: key_ok_def split: option.splits)
      from j' have j1: "jobs ?sb k' = Some j'" by simp
      have pp: "pending k (execute_job now ok k' ?sb) = 0"
        using ne p by (simp add: execute_job_pending_other[OF j1 jid ne] pending_threads_remove1)
      have jj: "jobs (execute_job now ok k' ?sb) k = jobs st k"
        by (simp add: execute_job_jobs_other[OF ne])
      from execute_job_db[OF j1, of now ok] obtain ws where
        ws: "db (execute_job now ok k' ?sb) = db st @ ws" "\<forall>w \<in> set ws. job_id w = job_id j'"
        by auto
      from ws(2) jid ne have "\<And>w. w \<in> set ws \<Longrightarrow> job_id w \<noteq> k" by auto
      then have "db_row k (db st @ ws) = db_row k (db st)"
        by (rule db_row_append_other)
      with row ws(1)
      have "db_row k (db (execute_job now ok k' ?sb)) = Some jd" by simp
      with True Finish pp jj jk show ?thesis by (simp add: done_inv_def)
    qed
  next
    case Restart
    from db_row_done_not_active[OF row d] have "k \<notin> job_id ` set (active_rows (db st))" .
    with Restart row show ?thesis
      by (simp add: done_inv_def boot_pending boot_jobs_other boot_db)
  qed
  then show "done_inv k jd (apply_event e st)"
    and "no_restart [e] \<Longrightarrow> jobs (apply_event e st) k = jobs st k" by simp_all
qed

lemma done_inv_run:
  "queue_inv st \<Longrightarrow> fresh_ids es st \<Longrightarrow> untouched k es \<Longrightarrow> status jd = Done \<Longrightarrow>
     done_inv k jd st \<Longrightarrow>
     done_inv k jd (run es st) \<and> (no_restart es \<longrightarrow> jobs (run es st) k = jobs st k)"
proof (induction es arbitrary: st)
  case Nil
  then show ?case by simp
next
  case (Cons e es)
  from Cons.prems(2) have f1: "fresh_ids [e] st" and f2: "fresh_ids es (apply_event e st)"
    using fresh_ids_Cons[of e es st] by blast+
  from Cons.prems(3) have u1: "untouched k [e]" and u2: "untouched k es"
    using untouched_Cons[of k e es] by blast+
  have q: "queue_inv (apply_event e st)" by (rule queue_inv_event[OF Cons.prems(1) f1])
  note ev = done_inv_event[OF Cons.prems(1) u1 Cons.prems(4) Cons.prems(5)]
  from Cons.IH[OF q f2 u2 Cons.prems(4) ev(1)] ev(2) show ?case
    using no_restart_Cons[of e es] by auto
qed

lemma done_after_finish:
  assumes fr: "fresh_ids (es0 @ Finish now True k # es) init"
    and th: "k \<in> set (threads (run es0 init))"
    and j: "jobs (run es0 init) k = Some j"
    and nr: "\<not> recurring j"
    and un: "untouched k es"
  shows "done_inv k (j\<lparr>status := Done\<rparr>) (run (es0 @ Finish now True k # es) init)
    \<and> (no_restart es \<longrightarrow> jobs (run (es0 @ Finish now True k # es) init) k = Some (j\<lparr>status := Done\<rparr>))"
proof -
  let ?st = "run es0 init"
  let ?sa = "?st\<lparr>threads := remove1 k (threads ?st)\<rparr>"
  let ?sb = "apply_event (Finish now True k) ?st"
  let ?dj = "j\<lparr>status := Done\<rparr>"
  from fr have f0: "fresh_ids es0 init" and f1: "fresh_ids es ?sb"
    by (simp_all add: fresh_ids_append)
  have q: "queue_inv ?st" by (rule queue_inv_run[OF queue_inv_init f0])
  have q1: "queue_inv ?sb" by (rule queue_inv_event[OF q]) simp
  from queue_invD[OF q, of k] j have jid: "job_id j = k" by (simp add: key_ok_def)
  from j have j0: "jobs ?sa k = Some j" by simp
  from execute_job_ok[OF j0, of now] nr th
  have e: "?sb = ?sa\<lparr>jobs := (jobs ?sa)(k \<mapsto> ?dj), db := db ?sa @ [?dj]\<rparr>" by simp
  then have jk: "jobs ?sb k = Some ?dj" and dbe: "db ?sb = db ?st @ [?dj]"
    by simp_all
  from queue_invD[OF q1, of k] jk have p: "pending k ?sb = 0" by (simp add: key_ok_def)
  from dbe jid have row: "db_row k (db ?sb) = Some ?dj" by (simp add: db_row_snoc)
  from p jk row have i: "done_inv k ?dj ?sb" by (simp add: done_inv_def)
  have d: "status ?dj = Done" by simp
  from done_inv_run[OF q1 f1 un d i] jk
  have "done_inv k ?dj (run es ?sb) \<and> (no_restart es \<longrightarrow> jobs (run es ?sb) k = Some ?dj)"
    by simp
  then show ?thesis by (simp add: run_append)
qed

text \<open>
  Claim C8, as the code has it. A run of \<open>execute_job\<close> whose work succeeds, the writes
  to the database succeeding too, sets the status to done and persists the job. If the
  job is not recurring that is all: the heap is unchanged. If it is recurring, \<open>run_at\<close>
  becomes \<open>now + interval\<close>, the status scheduled, the entry is pushed and the job is
  persisted again, the done row being written before the scheduled one. In a run of the
  system, once the executor has finished a job that is not recurring, and as long as no
  request cancels it or reuses its id, nothing is pending for it, its row in the table
  stays the done job, and \<open>jobs\<close> holds the done job (or nothing for it after a restart,
  since done rows are not loaded).
\<close>

theorem C8_success_path:
  "(\<forall>j. jobs st k = Some j \<longrightarrow>
      (\<not> recurring j \<longrightarrow>
         execute_job now True k st =
           st\<lparr>jobs := (jobs st)(k \<mapsto> j\<lparr>status := Done\<rparr>),
              db := db st @ [j\<lparr>status := Done\<rparr>]\<rparr>)
      \<and> (recurring j \<longrightarrow>
         execute_job now True k st =
           st\<lparr>jobs := (jobs st)(k \<mapsto> j\<lparr>run_at := now + interval j, status := Scheduled\<rparr>),
              heap := heappush (heap st) (now + interval j, job_id j),
              db := db st @ [j\<lparr>status := Done\<rparr>,
                             j\<lparr>run_at := now + interval j, status := Scheduled\<rparr>]\<rparr>))
   \<and> (\<forall>j. fresh_ids (es0 @ Finish now True k # es) init
         \<and> k \<in> set (threads (run es0 init))
         \<and> jobs (run es0 init) k = Some j \<and> \<not> recurring j \<and> untouched k es \<longrightarrow>
       pending k (run (es0 @ Finish now True k # es) init) = 0
       \<and> db_row k (db (run (es0 @ Finish now True k # es) init)) = Some (j\<lparr>status := Done\<rparr>)
       \<and> (jobs (run (es0 @ Finish now True k # es) init) k = None
          \<or> jobs (run (es0 @ Finish now True k # es) init) k = Some (j\<lparr>status := Done\<rparr>))
       \<and> (no_restart es \<longrightarrow>
            jobs (run (es0 @ Finish now True k # es) init) k = Some (j\<lparr>status := Done\<rparr>)))"
proof (intro conjI allI impI)
  fix j assume "jobs st k = Some j" "\<not> recurring j"
  with execute_job_ok[of st k j now]
  show "execute_job now True k st =
           st\<lparr>jobs := (jobs st)(k \<mapsto> j\<lparr>status := Done\<rparr>),
              db := db st @ [j\<lparr>status := Done\<rparr>]\<rparr>" by simp
next
  fix j assume "jobs st k = Some j" "recurring j"
  with execute_job_ok[of st k j now]
  show "execute_job now True k st =
           st\<lparr>jobs := (jobs st)(k \<mapsto> j\<lparr>run_at := now + interval j, status := Scheduled\<rparr>),
              heap := heappush (heap st) (now + interval j, job_id j),
              db := db st @ [j\<lparr>status := Done\<rparr>,
                             j\<lparr>run_at := now + interval j, status := Scheduled\<rparr>]\<rparr>" by simp
next
  fix j
  assume a: "fresh_ids (es0 @ Finish now True k # es) init
         \<and> k \<in> set (threads (run es0 init))
         \<and> jobs (run es0 init) k = Some j \<and> \<not> recurring j \<and> untouched k es"
  then have d: "done_inv k (j\<lparr>status := Done\<rparr>) (run (es0 @ Finish now True k # es) init)
    \<and> (no_restart es \<longrightarrow> jobs (run (es0 @ Finish now True k # es) init) k = Some (j\<lparr>status := Done\<rparr>))"
    using done_after_finish[of es0 now k es j] by blast
  from d show "pending k (run (es0 @ Finish now True k # es) init) = 0"
    by (simp add: done_inv_def)
  from d show "db_row k (db (run (es0 @ Finish now True k # es) init)) = Some (j\<lparr>status := Done\<rparr>)"
    by (simp add: done_inv_def)
  from d show "jobs (run (es0 @ Finish now True k # es) init) k = None
          \<or> jobs (run (es0 @ Finish now True k # es) init) k = Some (j\<lparr>status := Done\<rparr>)"
    by (simp add: done_inv_def)
  assume "no_restart es"
  with d show "jobs (run (es0 @ Finish now True k # es) init) k = Some (j\<lparr>status := Done\<rparr>)"
    by simp
qed

theorem C8_success_path_witness:
  "jobs started ''a'' = Some (mk_job ''a'' 0 Scheduled 0)
   \<and> \<not> recurring (mk_job ''a'' 0 Scheduled 0)
   \<and> jobs (execute_job 1 True ''a'' started) ''a'' = Some (mk_job ''a'' 0 Done 0)
   \<and> heap (execute_job 1 True ''a'' started) = []
   \<and> db (execute_job 1 True ''a'' started) = [mk_job ''a'' 0 Scheduled 0, mk_job ''a'' 0 Done 0]
   \<and> jobs started_recurring ''a'' = Some (rec_job 0 Scheduled)
   \<and> recurring (rec_job 0 Scheduled)
   \<and> jobs (execute_job 1 True ''a'' started_recurring) ''a'' = Some (rec_job 11 Scheduled)
   \<and> heap (execute_job 1 True ''a'' started_recurring) = [(11, ''a'')]
   \<and> db (execute_job 1 True ''a'' started_recurring)
       = [rec_job 0 Scheduled, rec_job 0 Done, rec_job 11 Scheduled]
   \<and> fresh_ids ([Create 0 (plain_req 0) ''a'', Tick 0] @ Finish 1 True ''a'' # after_done) init
   \<and> ''a'' \<in> set (threads (run [Create 0 (plain_req 0) ''a'', Tick 0] init))
   \<and> untouched ''a'' after_done
   \<and> pending ''a'' (run ([Create 0 (plain_req 0) ''a'', Tick 0] @ Finish 1 True ''a'' # after_done) init) = 0
   \<and> db_row ''a'' (db (run ([Create 0 (plain_req 0) ''a'', Tick 0] @ Finish 1 True ''a'' # after_done) init))
       = Some (mk_job ''a'' 0 Done 0)
   \<and> fresh_ids ([Create 0 (plain_req 0) ''a'', Tick 0] @ Finish 1 True ''a'' # [Tick 2]) init
   \<and> untouched ''a'' [Tick 2] \<and> no_restart [Tick 2]
   \<and> jobs (run ([Create 0 (plain_req 0) ''a'', Tick 0] @ Finish 1 True ''a'' # [Tick 2]) init) ''a''
       = Some (mk_job ''a'' 0 Done 0)"
proof -
  note A = C8_success_path [where st = started and k = "''a''" and now = 1
      and ?es0.0 = "[Create 0 (plain_req 0) ''a'', Tick 0]" and es = after_done]
  note B = C8_success_path [where st = started_recurring and k = "''a''" and now = 1
      and ?es0.0 = "[Create 0 (plain_req 0) ''a'', Tick 0]" and es = "[Tick 2]"]
  have d: "(mk_job ''a'' 0 Scheduled 0)\<lparr>status := Done\<rparr> = mk_job ''a'' 0 Done 0"
    by (simp add: mk_job_def)
  have h1: "jobs started ''a'' = Some (mk_job ''a'' 0 Scheduled 0)"
    by (simp add: started_eq)
  have h2: "\<not> recurring (mk_job ''a'' 0 Scheduled 0)" by (simp add: mk_job_def)
  from A h1 h2 have "execute_job 1 True ''a'' started =
      started\<lparr>jobs := (jobs started)(''a'' \<mapsto> (mk_job ''a'' 0 Scheduled 0)\<lparr>status := Done\<rparr>),
              db := db started @ [(mk_job ''a'' 0 Scheduled 0)\<lparr>status := Done\<rparr>]\<rparr>"
    by blast
  then have c1: "jobs (execute_job 1 True ''a'' started) ''a'' = Some (mk_job ''a'' 0 Done 0)"
    and c2: "heap (execute_job 1 True ''a'' started) = []"
    and c3: "db (execute_job 1 True ''a'' started) = [mk_job ''a'' 0 Scheduled 0, mk_job ''a'' 0 Done 0]"
    by (simp_all add: started_eq mk_job_def)
  have h3: "jobs started_recurring ''a'' = Some (rec_job 0 Scheduled)"
    by (simp add: started_recurring_eq)
  have h4: "recurring (rec_job 0 Scheduled)" by (simp add: rec_job_def)
  from B h3 h4 have "execute_job 1 True ''a'' started_recurring =
      started_recurring\<lparr>jobs := (jobs started_recurring)(''a'' \<mapsto>
                 (rec_job 0 Scheduled)\<lparr>run_at := 1 + interval (rec_job 0 Scheduled),
                    status := Scheduled\<rparr>),
              heap := heappush (heap started_recurring)
                 (1 + interval (rec_job 0 Scheduled), job_id (rec_job 0 Scheduled)),
              db := db started_recurring @ [(rec_job 0 Scheduled)\<lparr>status := Done\<rparr>,
                 (rec_job 0 Scheduled)\<lparr>run_at := 1 + interval (rec_job 0 Scheduled),
                    status := Scheduled\<rparr>]\<rparr>"
    by blast
  then have c4: "jobs (execute_job 1 True ''a'' started_recurring) ''a'' = Some (rec_job 11 Scheduled)"
    and c5: "heap (execute_job 1 True ''a'' started_recurring) = [(11, ''a'')]"
    and c6: "db (execute_job 1 True ''a'' started_recurring)
       = [rec_job 0 Scheduled, rec_job 0 Done, rec_job 11 Scheduled]"
    by (simp_all add: started_recurring_eq rec_job_def heappush_def)
  have h5: "fresh_ids ([Create 0 (plain_req 0) ''a'', Tick 0] @ Finish 1 True ''a'' # after_done) init"
    by (simp add: after_done_def op_defs boot_defs)
  have h6: "''a'' \<in> set (threads (run [Create 0 (plain_req 0) ''a'', Tick 0] init))"
    by (simp add: op_defs)
  have h7: "jobs (run [Create 0 (plain_req 0) ''a'', Tick 0] init) ''a'' = Some (mk_job ''a'' 0 Scheduled 0)"
    by (simp add: op_defs mk_job_def)
  have h8: "untouched ''a'' after_done" by (simp add: after_done_def)
  from A h5 h6 h7 h2 h8
  have c7: "pending ''a'' (run ([Create 0 (plain_req 0) ''a'', Tick 0] @ Finish 1 True ''a'' # after_done) init) = 0"
    and c8: "db_row ''a'' (db (run ([Create 0 (plain_req 0) ''a'', Tick 0] @ Finish 1 True ''a'' # after_done) init))
       = Some ((mk_job ''a'' 0 Scheduled 0)\<lparr>status := Done\<rparr>)"
    by blast+
  have h9: "fresh_ids ([Create 0 (plain_req 0) ''a'', Tick 0] @ Finish 1 True ''a'' # [Tick 2]) init"
    by (simp add: op_defs)
  have h10: "untouched ''a'' [Tick 2] \<and> no_restart [Tick 2]" by simp
  from B h9 h6 h7 h2 h10
  have c9: "jobs (run ([Create 0 (plain_req 0) ''a'', Tick 0] @ Finish 1 True ''a'' # [Tick 2]) init) ''a''
       = Some ((mk_job ''a'' 0 Scheduled 0)\<lparr>status := Done\<rparr>)"
    by blast
  from h1 h2 c1 c2 c3 h3 h4 c4 c5 c6 h5 h6 h8 c7 c8 h9 h10 c9 show ?thesis
    unfolding d by blast
qed

text \<open>
  The claim as stated fails once the done job is cancelled: \<open>delete_job\<close> changes its
  status from done to cancelled, the next restart loads the cancelled row and pushes an
  entry for it, and the scheduler hands the job to the executor again.
\<close>

theorem C8_done_job_cancelled_and_reloaded:
  "map_option status (jobs (run [Create 0 (plain_req 0) ''a'', Tick 0, Finish 1 True ''a''] init) ''a'')
     = Some Done
   \<and> entries ''a'' (heap (run [Create 0 (plain_req 0) ''a'', Tick 0, Finish 1 True ''a''] init)) = 0
   \<and> map_option status (jobs (run [Create 0 (plain_req 0) ''a'', Tick 0, Finish 1 True ''a'',
        Cancel ''a''] init) ''a'') = Some Cancelled
   \<and> entries ''a'' (heap (run [Create 0 (plain_req 0) ''a'', Tick 0, Finish 1 True ''a'',
        Cancel ''a'', Restart] init)) = 1
   \<and> fst (scheduler_iter 2 (run [Create 0 (plain_req 0) ''a'', Tick 0, Finish 1 True ''a'',
        Cancel ''a'', Restart] init)) = Some ''a''"
  by (simp add: op_defs entries_def boot_defs)

section \<open>Dispatch order\<close>

lemma entry_le_refl: "entry_le e e"
  by (cases e) simp

lemma entry_le_trans: "entry_le a b \<Longrightarrow> entry_le b c \<Longrightarrow> entry_le a c"
  by (cases a; cases b; cases c) auto

lemma entry_le_total: "entry_le a b \<or> entry_le b a"
  by (cases a; cases b) auto

lemma heap_top_least: "heap_top h = Some m \<Longrightarrow> e \<in> set h \<Longrightarrow> entry_le m e"
proof (induction h arbitrary: m)
  case Nil
  then show ?case by simp
next
  case (Cons x xs)
  show ?case
  proof (cases "heap_top xs")
    case None
    then have "xs = []" by (simp add: heap_top_None)
    with Cons.prems None show ?thesis by (simp add: entry_le_refl)
  next
    case (Some m')
    note IH = Cons.IH[OF Some]
    show ?thesis
    proof (cases "entry_le x m'")
      case True
      with Some Cons.prems(1) have m: "m = x" by simp
      from Cons.prems(2) have "e = x \<or> e \<in> set xs" by simp
      then show ?thesis
      proof
        assume "e = x"
        with m show ?thesis by (simp add: entry_le_refl)
      next
        assume "e \<in> set xs"
        from entry_le_trans[OF True IH[OF this]] m show ?thesis by simp
      qed
    next
      case False
      with Some Cons.prems(1) have m: "m = m'" by simp
      from False entry_le_total[of x m'] have "entry_le m' x" by blast
      with Cons.prems(2) IH m show ?thesis by auto
    qed
  qed
qed

lemma scheduler_iter_least:
  assumes "fst (scheduler_iter now st) = Some i"
  shows "\<exists>t. (t, i) \<in> set (heap st) \<and> t \<le> now
           \<and> (\<forall>e \<in> set (heap st). entry_le (t, i) e)
           \<and> heap (snd (scheduler_iter now st)) = remove1 (t, i) (heap st)"
proof (cases "heap_top (heap st)")
  case None
  with assms show ?thesis by (simp add: scheduler_iter_def)
next
  case (Some m)
  obtain t i' where m: "m = (t, i')" by (cases m)
  show ?thesis
  proof (cases "t \<le> now")
    case False
    with Some m assms show ?thesis by (simp add: scheduler_iter_def)
  next
    case True
    with Some m assms have i: "i' = i"
      by (simp add: scheduler_iter_def heappop_def Let_def split: option.splits)
    from Some m i have top: "heap_top (heap st) = Some (t, i)" by simp
    from True top assms
    have "heap (snd (scheduler_iter now st)) = remove1 (t, i) (heap st)"
      by (simp add: scheduler_iter_def heappop_def Let_def split: option.splits)
    with True heap_top_mem[OF top] heap_top_least[OF top] show ?thesis by blast
  qed
qed

lemma tie3_heap: "heap tie3 = [(1, ''b''), (1, ''a''), (6, ''c'')]"
  by (simp add: tie3_def op_defs)

text \<open>
  Claim C7, as the code has it. The heap orders the tuples \<open>(run_at, job_id)\<close>: the
  entry of the job that the scheduler hands to the executor is due and is the least of
  the heap in that order, so among entries with the same \<open>run_at\<close> the job with the
  lesser id string is popped first, whatever the order of submission. For jobs A, B, C
  submitted in that order on an empty heap, A and B due at \<open>t\<close> and C at \<open>t + 5\<close>, the
  scheduler pops the one of A and B with the lesser id, then the other, then C.
\<close>

theorem C7_ties_by_job_id:
  "(\<forall>i. fst (scheduler_iter now st) = Some i \<longrightarrow>
       (\<exists>t. (t, i) \<in> set (heap st) \<and> t \<le> now
           \<and> (\<forall>e \<in> set (heap st). entry_le (t, i) e)
           \<and> heap (snd (scheduler_iter now st)) = remove1 (t, i) (heap st)))
   \<and> (heap st = [] \<and> nA + dA = t \<and> nB + dB = t \<and> nC + dC = t + 5
        \<and> t \<le> n1 \<and> t \<le> n2 \<and> t + 5 \<le> n3 \<longrightarrow>
       fst (scheduler_iter n1
            (run [Create nA (plain_req dA) a, Create nB (plain_req dB) b,
                  Create nC (plain_req dC) c] st)) = Some (min a b)
       \<and> fst (scheduler_iter n2 (snd (scheduler_iter n1
            (run [Create nA (plain_req dA) a, Create nB (plain_req dB) b,
                  Create nC (plain_req dC) c] st)))) = Some (max a b)
       \<and> fst (scheduler_iter n3 (snd (scheduler_iter n2 (snd (scheduler_iter n1
            (run [Create nA (plain_req dA) a, Create nB (plain_req dB) b,
                  Create nC (plain_req dC) c] st)))))) = Some c)"
proof (intro conjI allI impI)
  fix i assume "fst (scheduler_iter now st) = Some i"
  then show "\<exists>t. (t, i) \<in> set (heap st) \<and> t \<le> now
           \<and> (\<forall>e \<in> set (heap st). entry_le (t, i) e)
           \<and> heap (snd (scheduler_iter now st)) = remove1 (t, i) (heap st)"
    by (rule scheduler_iter_least)
next
  let ?s = "run [Create nA (plain_req dA) a, Create nB (plain_req dB) b,
                  Create nC (plain_req dC) c] st"
  assume a: "heap st = [] \<and> nA + dA = t \<and> nB + dB = t \<and> nC + dC = t + 5
        \<and> t \<le> n1 \<and> t \<le> n2 \<and> t + 5 \<le> n3"
  have "jobs ?s a \<noteq> None \<and> jobs ?s b \<noteq> None \<and> jobs ?s c \<noteq> None"
    by (simp add: op_defs)
  then obtain ja jb jc where
    j: "jobs ?s a = Some ja" "jobs ?s b = Some jb" "jobs ?s c = Some jc" by auto
  have h: "heap ?s = [(t, a), (t, b), (t + 5, c)]"
    using a by (simp add: op_defs)
  have "fst (scheduler_iter n1 ?s) = Some (min a b)
    \<and> fst (scheduler_iter n2 (snd (scheduler_iter n1 ?s))) = Some (max a b)
    \<and> fst (scheduler_iter n3 (snd (scheduler_iter n2 (snd (scheduler_iter n1 ?s))))) = Some c"
  proof (cases "a \<le> b")
    case True
    with h j a show ?thesis
      by (simp add: scheduler_iter_def heappop_def Let_def min_def max_def)
  next
    case False
    then have "a \<noteq> b" "b \<noteq> a" "b \<le> a" by auto
    with False h j a show ?thesis
      by (simp add: scheduler_iter_def heappop_def Let_def min_def max_def)
  qed
  then show "fst (scheduler_iter n1 ?s) = Some (min a b)"
    and "fst (scheduler_iter n2 (snd (scheduler_iter n1 ?s))) = Some (max a b)"
    and "fst (scheduler_iter n3 (snd (scheduler_iter n2 (snd (scheduler_iter n1 ?s))))) = Some c"
    by simp_all
qed

theorem C7_ties_by_job_id_witness:
  "fst (scheduler_iter 2 tie3) = Some ''a''
   \<and> (1, ''a'') \<in> set (heap tie3)
   \<and> entry_le (1, ''a'') (1, ''b'')
   \<and> heap init = [] \<and> (0::real) + 1 = 1 \<and> (1::real) + 0 = 1 \<and> (1::real) + 5 = 1 + 5
   \<and> (1::real) \<le> 2 \<and> (1::real) \<le> 3 \<and> (1::real) + 5 \<le> 7
   \<and> fst (scheduler_iter 2
        (run [Create 0 (plain_req 1) ''b'', Create 1 (plain_req 0) ''a'',
              Create 1 (plain_req 5) ''c''] init)) = Some (min ''b'' ''a'')
   \<and> fst (scheduler_iter 3 (snd (scheduler_iter 2
        (run [Create 0 (plain_req 1) ''b'', Create 1 (plain_req 0) ''a'',
              Create 1 (plain_req 5) ''c''] init)))) = Some (max ''b'' ''a'')
   \<and> fst (scheduler_iter 7 (snd (scheduler_iter 3 (snd (scheduler_iter 2
        (run [Create 0 (plain_req 1) ''b'', Create 1 (plain_req 0) ''a'',
              Create 1 (plain_req 5) ''c''] init)))))) = Some ''c''
   \<and> min ''b'' ''a'' = ''a'' \<and> max ''b'' ''a'' = ''b''"
proof -
  note A = C7_ties_by_job_id [where now = 2 and st = tie3]
  note B = C7_ties_by_job_id [where st = init and nA = 0 and dA = 1 and t = 1 and nB = 1
      and dB = 0 and nC = 1 and dC = 5 and ?n1.0 = 2 and ?n2.0 = 3 and ?n3.0 = 7
      and a = "''b''" and b = "''a''" and c = "''c''"]
  have h1: "fst (scheduler_iter 2 tie3) = Some ''a''"
    by (simp add: tie3_def op_defs)
  from A h1 obtain t where t: "(t, ''a'') \<in> set (heap tie3)"
    "\<forall>e \<in> set (heap tie3). entry_le (t, ''a'') e" by blast
  from t(1) have t1: "t = 1" by (simp add: tie3_heap)
  with t have c1: "(1, ''a'') \<in> set (heap tie3)" and c2: "entry_le (1, ''a'') (1, ''b'')"
    by (simp_all add: tie3_heap)
  have h2: "heap init = [] \<and> (0::real) + 1 = 1 \<and> (1::real) + 0 = 1 \<and> (1::real) + 5 = 1 + 5
   \<and> (1::real) \<le> 2 \<and> (1::real) \<le> 3 \<and> (1::real) + 5 \<le> 7"
    by (simp add: init_def)
  have m: "min ''b'' ''a'' = ''a'' \<and> max ''b'' ''a'' = ''b''" by (simp add: min_def max_def)
  from B h2 h1 c1 c2 m show ?thesis by blast
qed

text \<open>
  The claim as stated fails when the job submitted second has the lesser id: it is
  popped first.
\<close>

theorem C7_later_submission_popped_first:
  "fst (scheduler_iter 2
        (run [Create 0 (plain_req 1) ''b'', Create 1 (plain_req 0) ''a'',
              Create 1 (plain_req 5) ''c''] init)) = Some ''a''"
  by (simp add: op_defs)

end
